theory Spec2Isabelle
  imports Main "HOL-Library.Sublist"
begin

section \<open>Data model of the notes store (utils/notesStorage.js)\<close>

text \<open>
  Strings are modelled by \<^typ>\<open>string\<close> and read as ASCII text. Numbers are modelled by
  \<^typ>\<open>int\<close>: a JavaScript Number is exact on integers of magnitude below \<open>2^53\<close>, and the
  counter of the store starts at 1 and grows by one per created note. The value \<open>NaN\<close> is a
  constructor of its own where it can occur.

  A timestamp is the string returned by \<^verbatim>\<open>new Date().toISOString()\<close>. Every evaluation of that
  expression in the source is an argument of the modelled operation, in evaluation order: the
  clock is read by the operation, not chosen by it.
\<close>

type_synonym timestamp = string

text \<open>
  A stored note. \<open>dueDate\<close> is \<open>None\<close> when the object has no such key, \<open>Some None\<close> when it is
  \<^verbatim>\<open>null\<close> and \<open>Some (Some d)\<close> when it is the string \<open>d\<close>. The field \<^verbatim>\<open>id\<close> is called \<open>note_id\<close>.
\<close>

record Note =
  note_id :: int
  title :: string
  content :: string
  tags :: "string list"
  dueDate :: "string option option"
  isArchived :: bool
  isDone :: bool
  createdAt :: timestamp
  updatedAt :: timestamp

text \<open>The module state: \<^verbatim>\<open>let notes = []; let currentId = 1;\<close>. The array \<^verbatim>\<open>notes\<close> is the field \<open>notes_arr\<close>.\<close>

record store =
  notes_arr :: "Note list"
  currentId :: int

definition initial_store :: store where
  "initial_store = \<lparr>notes_arr = [], currentId = 1\<rparr>"

text \<open>
  The payloads are the outputs of the two zod schemas of the validation middleware, which is
  what the controllers hand to the store (\<^verbatim>\<open>req.validatedData\<close>): unknown keys are stripped, so a
  payload cannot name \<^verbatim>\<open>id\<close>, \<^verbatim>\<open>createdAt\<close> or \<^verbatim>\<open>updatedAt\<close>. In the update payload \<open>None\<close> is an
  absent key.
\<close>

record createPayload =
  p_title :: string
  p_content :: string
  p_tags :: "string list"
  p_dueDate :: "string option option"

record updatePayload =
  u_title :: "string option"
  u_content :: "string option"
  u_tags :: "string list option"
  u_dueDate :: "string option option"
  u_isArchived :: "bool option"
  u_isDone :: "bool option"

definition no_update :: updatePayload where
  "no_update = \<lparr>u_title = None, u_content = None, u_tags = None, u_dueDate = None,
                 u_isArchived = None, u_isDone = None\<rparr>"

text \<open>
  The values a field of the \<^verbatim>\<open>filters\<close> object can hold: the primitives, and arrays of strings.
  \<open>JNum\<close> carries an integral number.
\<close>

datatype jsval =
    JUndefined
  | JNull
  | JBool bool
  | JNum int
  | JNaN
  | JStr string
  | JArr "string list"

record filters =
  f_q :: jsval
  f_tags :: jsval
  f_isArchived :: jsval
  f_isDone :: jsval
  f_limit :: jsval
  f_offset :: jsval

text \<open>\<^verbatim>\<open>getAll()\<close> and \<^verbatim>\<open>getAll({})\<close>: every key is \<^verbatim>\<open>undefined\<close>.\<close>

definition no_filters :: filters where
  "no_filters = \<lparr>f_q = JUndefined, f_tags = JUndefined, f_isArchived = JUndefined,
                  f_isDone = JUndefined, f_limit = JUndefined, f_offset = JUndefined\<rparr>"

record list_result =
  r_notes :: "Note list"
  r_total :: int
  r_limit :: int
  r_offset :: int
  r_hasMore :: bool

datatype error = TypeError

section \<open>The JavaScript built-ins the store calls\<close>

text \<open>The truth value of a value in a condition (ToBoolean).\<close>

fun truthy :: "jsval \<Rightarrow> bool" where
  "truthy JUndefined = False"
| "truthy JNull = False"
| "truthy (JBool b) = b"
| "truthy (JNum n) = (n \<noteq> 0)"
| "truthy JNaN = False"
| "truthy (JStr s) = (s \<noteq> [])"
| "truthy (JArr xs) = True"

text \<open>\<^verbatim>\<open>String.prototype.toLowerCase\<close> on ASCII text.\<close>

definition lower_char :: "char \<Rightarrow> char" where
  "lower_char c =
     (let k = (of_char c :: nat) in if 65 \<le> k \<and> k \<le> 90 then char_of (k + 32) else c)"

definition toLowerCase :: "string \<Rightarrow> string" where
  "toLowerCase s = map lower_char s"

text \<open>\<^verbatim>\<open>s.includes(q)\<close> on strings: \<open>q\<close> occurs in \<open>s\<close> as a contiguous run.\<close>

definition str_includes :: "string \<Rightarrow> string \<Rightarrow> bool" where
  "str_includes s q = sublist q s"

text \<open>\<^verbatim>\<open>xs.includes(x)\<close> on an array of strings.\<close>

definition arr_includes :: "string list \<Rightarrow> string \<Rightarrow> bool" where
  "arr_includes xs x = (x \<in> set xs)"

text \<open>\<^verbatim>\<open>xs.some(p)\<close>.\<close>

definition some :: "('a \<Rightarrow> bool) \<Rightarrow> 'a list \<Rightarrow> bool" where
  "some p xs = list_ex p xs"

text \<open>\<^verbatim>\<open>xs.findIndex(p)\<close>: the index of the first element satisfying \<open>p\<close>, or \<open>-1\<close>.\<close>

fun findIndex :: "('a \<Rightarrow> bool) \<Rightarrow> 'a list \<Rightarrow> int" where
  "findIndex p [] = -1"
| "findIndex p (x # xs) =
     (if p x then 0 else (let i = findIndex p xs in if i = -1 then -1 else i + 1))"

text \<open>
  \<^verbatim>\<open>xs.slice(start, end)\<close> with two integers: a negative bound counts from the end, both are
  clamped to the array, and an empty range gives the empty array.
\<close>

definition slice :: "'a list \<Rightarrow> int \<Rightarrow> int \<Rightarrow> 'a list" where
  "slice xs start fin =
     (let len = int (length xs);
          k = (if start < 0 then max (len + start) 0 else min start len);
          final = (if fin < 0 then max (len + fin) 0 else min fin len);
          count = max (final - k) 0
      in take (nat count) (drop (nat k) xs))"

text \<open>
  \<^verbatim>\<open>parseInt(string)\<close> without a radix: leading white space is skipped, then an optional sign,
  then an optional \<^verbatim>\<open>0x\<close> or \<^verbatim>\<open>0X\<close> (which selects radix 16), then the longest run of digits of
  the radix; no digit at all gives \<open>NaN\<close>, here \<open>None\<close>.
\<close>

definition is_space :: "char \<Rightarrow> bool" where
  "is_space c = ((of_char c :: nat) \<in> {9, 10, 11, 12, 13, 32})"

definition digit_of :: "nat \<Rightarrow> char \<Rightarrow> nat option" where
  "digit_of radix c =
     (let k = (of_char c :: nat);
          v = (if 48 \<le> k \<and> k \<le> 57 then Some (k - 48)
               else if 97 \<le> k \<and> k \<le> 122 then Some (k - 87)
               else if 65 \<le> k \<and> k \<le> 90 then Some (k - 55)
               else None)
      in case v of None \<Rightarrow> None | Some d \<Rightarrow> if d < radix then Some d else None)"

definition digits_value :: "nat \<Rightarrow> string \<Rightarrow> nat" where
  "digits_value radix z =
     foldl (\<lambda>acc c. case digit_of radix c of None \<Rightarrow> acc | Some d \<Rightarrow> acc * radix + d) 0 z"

definition parseInt_str :: "string \<Rightarrow> int option" where
  "parseInt_str input =
     (let s0 = dropWhile is_space input;
          sign = (case s0 of c # _ \<Rightarrow> if c = CHR ''-'' then (-1::int) else 1 | [] \<Rightarrow> 1);
          s1 = (case s0 of c # r \<Rightarrow> if c = CHR ''-'' \<or> c = CHR ''+'' then r else s0 | [] \<Rightarrow> s0);
          hex = (case s1 of a # b # _ \<Rightarrow> a = CHR ''0'' \<and> (b = CHR ''x'' \<or> b = CHR ''X'')
                          | _ \<Rightarrow> False);
          radix = (if hex then 16 else 10);
          s2 = (if hex then drop 2 s1 else s1);
          z = takeWhile (\<lambda>c. digit_of radix c \<noteq> None) s2
      in if z = [] then None else Some (sign * int (digits_value radix z)))"

text \<open>\<^verbatim>\<open>xs.join(",")\<close>, which is what ToString gives for an array of strings.\<close>

fun join_comma :: "string list \<Rightarrow> string" where
  "join_comma [] = []"
| "join_comma [x] = x"
| "join_comma (x # y # ys) = x @ '','' @ join_comma (y # ys)"

text \<open>
  \<^verbatim>\<open>parseInt(v)\<close>: the argument is converted to a string first. \<^verbatim>\<open>undefined\<close>, \<^verbatim>\<open>null\<close>, the
  booleans and \<open>NaN\<close> print as words without a leading digit; an integral number prints as its
  decimal digits and parses back to itself.
\<close>

fun parseInt :: "jsval \<Rightarrow> int option" where
  "parseInt JUndefined = None"
| "parseInt JNull = None"
| "parseInt (JBool b) = None"
| "parseInt (JNum n) = Some n"
| "parseInt JNaN = None"
| "parseInt (JStr s) = parseInt_str s"
| "parseInt (JArr xs) = parseInt_str (join_comma xs)"

text \<open>\<^verbatim>\<open>parseInt(v) || d\<close>: \<open>NaN\<close> and \<open>0\<close> are falsy, so both give \<open>d\<close>.\<close>

definition parseInt_or :: "jsval \<Rightarrow> int \<Rightarrow> int" where
  "parseInt_or v d = (case parseInt v of None \<Rightarrow> d | Some n \<Rightarrow> if n = 0 then d else n)"

section \<open>The store operations\<close>

text \<open>\<^verbatim>\<open>const generateId = () => currentId++;\<close>\<close>

definition generateId :: "store \<Rightarrow> int \<times> store" where
  "generateId s = (currentId s, s\<lparr>currentId := currentId s + 1\<rparr>)"

text \<open>
  The four filter stages of \<^verbatim>\<open>getAll\<close>, in source order. Each takes the notes that are left and
  gives the notes that pass, or the TypeError the source throws.

  \<^item> \<^verbatim>\<open>if (filters.q)\<close>: a truthy \<open>q\<close> that is not a string has no \<^verbatim>\<open>toLowerCase\<close>, and calling it
    throws before any note is looked at.
  \<^item> \<^verbatim>\<open>if (filters.tags && filters.tags.length > 0)\<close>: \<open>js_length\<close> is the \<^verbatim>\<open>length\<close> property, \<open>None\<close>
    for \<^verbatim>\<open>undefined\<close> (a number or \<^verbatim>\<open>true\<close> has none), and \<^verbatim>\<open>undefined > 0\<close> is false; a non-empty
    string has a positive length but no \<^verbatim>\<open>some\<close>, which throws inside the callback, that is, as
    soon as there is a note to test.
  \<^item> \<^verbatim>\<open>note.isArchived === filters.isArchived\<close>: strict equality of a boolean with any value.
\<close>

definition filter_q :: "jsval \<Rightarrow> Note list \<Rightarrow> error + Note list" where
  "filter_q qv ns =
     (if truthy qv then
        (case qv of
           JStr s \<Rightarrow>
             (let query = toLowerCase s
              in Inr (filter (\<lambda>n. str_includes (toLowerCase (title n)) query \<or>
                                   str_includes (toLowerCase (content n)) query) ns))
         | _ \<Rightarrow> Inl TypeError)
      else Inr ns)"

definition js_length :: "jsval \<Rightarrow> nat option" where
  "js_length v = (case v of JStr s \<Rightarrow> Some (length s) | JArr xs \<Rightarrow> Some (length xs) | _ \<Rightarrow> None)"

definition filter_tags :: "jsval \<Rightarrow> Note list \<Rightarrow> error + Note list" where
  "filter_tags tv ns =
     (if truthy tv \<and> (case js_length tv of None \<Rightarrow> False | Some l \<Rightarrow> l > 0) then
        (case tv of
           JArr ts \<Rightarrow> Inr (filter (\<lambda>n. some (\<lambda>tag. arr_includes (tags n) tag) ts) ns)
         | _ \<Rightarrow> (if ns = [] then Inr [] else Inl TypeError))
      else Inr ns)"

definition filter_isArchived :: "jsval \<Rightarrow> Note list \<Rightarrow> Note list" where
  "filter_isArchived v ns =
     (if v \<noteq> JUndefined then filter (\<lambda>n. JBool (isArchived n) = v) ns else ns)"

definition filter_isDone :: "jsval \<Rightarrow> Note list \<Rightarrow> Note list" where
  "filter_isDone v ns =
     (if v \<noteq> JUndefined then filter (\<lambda>n. JBool (isDone n) = v) ns else ns)"

text \<open>
  \<^verbatim>\<open>getAll(filters)\<close>. The source assigns neither \<^verbatim>\<open>notes\<close> nor \<^verbatim>\<open>currentId\<close> (it filters a copy of
  the array), so the store that comes back is the one that went in.
\<close>

definition getAll :: "filters \<Rightarrow> store \<Rightarrow> (error + list_result) \<times> store" where
  "getAll f s =
     (case filter_q (f_q f) (notes_arr s) of
        Inl e \<Rightarrow> (Inl e, s)
      | Inr ns1 \<Rightarrow>
          (case filter_tags (f_tags f) ns1 of
             Inl e \<Rightarrow> (Inl e, s)
           | Inr ns2 \<Rightarrow>
               (let ns3 = filter_isArchived (f_isArchived f) ns2;
                    filteredNotes = filter_isDone (f_isDone f) ns3;
                    limit = parseInt_or (f_limit f) 10;
                    offset = parseInt_or (f_offset f) 0;
                    total = int (length filteredNotes);
                    paginatedNotes = slice filteredNotes offset (offset + limit)
                in (Inr \<lparr>r_notes = paginatedNotes, r_total = total, r_limit = limit,
                          r_offset = offset, r_hasMore = (offset + limit < total)\<rparr>, s))))"

text \<open>
  \<^verbatim>\<open>getById\<close>: \<^verbatim>\<open>notes.find(note => note.id === id)\<close>, \<open>None\<close> for \<^verbatim>\<open>undefined\<close>. The id is an integer; an
  id that is \<open>NaN\<close> (a path segment that does not parse) equals no stored id, like an integer
  that no note has.
\<close>

definition getById :: "int \<Rightarrow> store \<Rightarrow> Note option" where
  "getById i s = find (\<lambda>n. note_id n = i) (notes_arr s)"

text \<open>
  \<^verbatim>\<open>create\<close>. \<open>t1\<close> is the clock reading of the \<^verbatim>\<open>createdAt\<close> line and \<open>t2\<close> the one of the
  \<^verbatim>\<open>updatedAt\<close> line below it.
\<close>

definition create :: "timestamp \<Rightarrow> timestamp \<Rightarrow> createPayload \<Rightarrow> store \<Rightarrow> Note \<times> store" where
  "create t1 t2 noteData s =
     (let (i, s1) = generateId s;
          newNote = \<lparr>note_id = i, title = p_title noteData, content = p_content noteData,
                     tags = p_tags noteData, dueDate = p_dueDate noteData,
                     isArchived = False, isDone = False, createdAt = t1, updatedAt = t2\<rparr>
      in (newNote, s1\<lparr>notes_arr := notes_arr s1 @ [newNote]\<rparr>))"

text \<open>The object spread \<^verbatim>\<open>{...note, ...updateData, updatedAt: t}\<close>.\<close>

definition merge_note :: "Note \<Rightarrow> updatePayload \<Rightarrow> timestamp \<Rightarrow> Note" where
  "merge_note n u t =
     n\<lparr>title := (case u_title u of None \<Rightarrow> title n | Some v \<Rightarrow> v),
       content := (case u_content u of None \<Rightarrow> content n | Some v \<Rightarrow> v),
       tags := (case u_tags u of None \<Rightarrow> tags n | Some v \<Rightarrow> v),
       dueDate := (case u_dueDate u of None \<Rightarrow> dueDate n | Some v \<Rightarrow> Some v),
       isArchived := (case u_isArchived u of None \<Rightarrow> isArchived n | Some v \<Rightarrow> v),
       isDone := (case u_isDone u of None \<Rightarrow> isDone n | Some v \<Rightarrow> v),
       updatedAt := t\<rparr>"

text \<open>\<^verbatim>\<open>update\<close>: \<open>None\<close> is the \<^verbatim>\<open>null\<close> returned when no note has the id.\<close>

definition update :: "timestamp \<Rightarrow> int \<Rightarrow> updatePayload \<Rightarrow> store \<Rightarrow> Note option \<times> store" where
  "update t i updateData s =
     (let noteIndex = findIndex (\<lambda>n. note_id n = i) (notes_arr s)
      in if noteIndex = -1 then (None, s)
         else (let k = nat noteIndex;
                   new = merge_note (notes_arr s ! k) updateData t
               in (Some new, s\<lparr>notes_arr := (notes_arr s)[k := new]\<rparr>)))"

text \<open>\<^verbatim>\<open>delete\<close>: \<^verbatim>\<open>notes.splice(noteIndex, 1)\<close> removes the element at the index.\<close>

definition delete :: "int \<Rightarrow> store \<Rightarrow> bool \<times> store" where
  "delete i s =
     (let noteIndex = findIndex (\<lambda>n. note_id n = i) (notes_arr s)
      in if noteIndex = -1 then (False, s)
         else (True, s\<lparr>notes_arr := take (nat noteIndex) (notes_arr s) @
                                 drop (nat noteIndex + 1) (notes_arr s)\<rparr>))"

text \<open>The four status operations: look the note up, then delegate to \<^verbatim>\<open>update\<close>.\<close>

definition archive :: "timestamp \<Rightarrow> int \<Rightarrow> store \<Rightarrow> Note option \<times> store" where
  "archive t i s =
     (case getById i s of
        None \<Rightarrow> (None, s)
      | Some _ \<Rightarrow> update t i (no_update\<lparr>u_isArchived := Some True\<rparr>) s)"

definition unarchive :: "timestamp \<Rightarrow> int \<Rightarrow> store \<Rightarrow> Note option \<times> store" where
  "unarchive t i s =
     (case getById i s of
        None \<Rightarrow> (None, s)
      | Some _ \<Rightarrow> update t i (no_update\<lparr>u_isArchived := Some False\<rparr>) s)"

definition markAsDone :: "timestamp \<Rightarrow> int \<Rightarrow> store \<Rightarrow> Note option \<times> store" where
  "markAsDone t i s =
     (case getById i s of
        None \<Rightarrow> (None, s)
      | Some _ \<Rightarrow> update t i (no_update\<lparr>u_isDone := Some True\<rparr>) s)"

definition markAsUndone :: "timestamp \<Rightarrow> int \<Rightarrow> store \<Rightarrow> Note option \<times> store" where
  "markAsUndone t i s =
     (case getById i s of
        None \<Rightarrow> (None, s)
      | Some _ \<Rightarrow> update t i (no_update\<lparr>u_isDone := Some False\<rparr>) s)"

section \<open>Sequences of store operations\<close>

text \<open>
  One call of the store's interface. \<open>step\<close> runs it and reports the id that the call
  assigned, if it created a note; \<open>run\<close> runs a sequence of calls from left to right and
  collects the assigned ids in order.
\<close>

datatype op =
    GetAll filters
  | GetById int
  | Create timestamp timestamp createPayload
  | Update timestamp int updatePayload
  | Delete int
  | Archive timestamp int
  | Unarchive timestamp int
  | MarkAsDone timestamp int
  | MarkAsUndone timestamp int

fun step :: "op \<Rightarrow> store \<Rightarrow> int option \<times> store" where
  "step (GetAll f) s = (None, snd (getAll f s))"
| "step (GetById i) s = (None, s)"
| "step (Create t1 t2 p) s = (Some (note_id (fst (create t1 t2 p s))), snd (create t1 t2 p s))"
| "step (Update t i u) s = (None, snd (update t i u s))"
| "step (Delete i) s = (None, snd (delete i s))"
| "step (Archive t i) s = (None, snd (archive t i s))"
| "step (Unarchive t i) s = (None, snd (unarchive t i s))"
| "step (MarkAsDone t i) s = (None, snd (markAsDone t i s))"
| "step (MarkAsUndone t i) s = (None, snd (markAsUndone t i s))"

fun run :: "op list \<Rightarrow> store \<Rightarrow> int list \<times> store" where
  "run [] s = ([], s)"
| "run (x # xs) s =
     (let (r, s1) = step x s;
          (ids, s2) = run xs s1
      in ((case r of None \<Rightarrow> ids | Some i \<Rightarrow> i # ids), s2))"

text \<open>Whether a call creates a note.\<close>

fun is_create :: "op \<Rightarrow> bool" where
  "is_create (Create t1 t2 p) = True"
| "is_create _ = False"

text \<open>
  Every stored id lies below the counter. The initial store has the property and every
  operation keeps it, so it holds in every state the module can reach.
\<close>

definition ids_below_counter :: "store \<Rightarrow> bool" where
  "ids_below_counter s = list_all (\<lambda>n. note_id n < currentId s) (notes_arr s)"

section \<open>The filter rules in the words of the specification\<close>

text \<open>
  \<open>pass_q\<close>: the lowercased \<open>q\<close> is a substring of the lowercased title or of the lowercased
  content. \<open>shares_tag\<close>: the note has at least one tag in common with the tag sequence.
  \<open>pass_flag\<close>: the note's flag equals the given value. A filter that is absent
  (\<^verbatim>\<open>undefined\<close>) passes every note.
\<close>

definition pass_q :: "jsval \<Rightarrow> Note \<Rightarrow> bool" where
  "pass_q qv n =
     (case qv of
        JStr s \<Rightarrow> sublist (toLowerCase s) (toLowerCase (title n)) \<or>
                  sublist (toLowerCase s) (toLowerCase (content n))
      | _ \<Rightarrow> True)"

definition shares_tag :: "string list \<Rightarrow> Note \<Rightarrow> bool" where
  "shares_tag ts n = (set ts \<inter> set (tags n) \<noteq> {})"

definition pass_flag :: "jsval \<Rightarrow> bool \<Rightarrow> bool" where
  "pass_flag v b = (case v of JUndefined \<Rightarrow> True | _ \<Rightarrow> v = JBool b)"

text \<open>The tags rule as the specification words it: a present tag sequence must share a tag.\<close>

definition claimed_pass_tags :: "jsval \<Rightarrow> Note \<Rightarrow> bool" where
  "claimed_pass_tags tv n = (case tv of JArr ts \<Rightarrow> shares_tag ts n | _ \<Rightarrow> True)"

definition claimed_passes :: "filters \<Rightarrow> Note \<Rightarrow> bool" where
  "claimed_passes f n =
     (pass_q (f_q f) n \<and> claimed_pass_tags (f_tags f) n \<and>
      pass_flag (f_isArchived f) (isArchived n) \<and> pass_flag (f_isDone f) (isDone n))"

text \<open>The tags rule with an empty tag sequence counted as absent.\<close>

definition pass_tags :: "jsval \<Rightarrow> Note \<Rightarrow> bool" where
  "pass_tags tv n = (case tv of JArr ts \<Rightarrow> ts = [] \<or> shares_tag ts n | _ \<Rightarrow> True)"

definition passes :: "filters \<Rightarrow> Note \<Rightarrow> bool" where
  "passes f n =
     (pass_q (f_q f) n \<and> pass_tags (f_tags f) n \<and>
      pass_flag (f_isArchived f) (isArchived n) \<and> pass_flag (f_isDone f) (isDone n))"

text \<open>
  The filter values the rules are about: \<open>q\<close> absent or a string, \<open>tags\<close> absent or an array of
  strings. (Any other truthy \<open>q\<close>, and a non-empty string as \<open>tags\<close>, make the source throw.)
\<close>

definition typed_filters :: "filters \<Rightarrow> bool" where
  "typed_filters f =
     ((case f_q f of JUndefined \<Rightarrow> True | JStr _ \<Rightarrow> True | _ \<Rightarrow> False) \<and>
      (case f_tags f of JUndefined \<Rightarrow> True | JArr _ \<Rightarrow> True | _ \<Rightarrow> False))"

section \<open>Request validation (middleware/validation.js)\<close>

text \<open>
  The raw payload: \<^verbatim>\<open>req.body\<close> as the JSON body parser leaves it. An object is the list of its
  keys with their values, and \<open>map_of\<close> reads a key. The schemas accept no number, so the value
  of a number plays no role.
\<close>

datatype json =
    JsNull
  | JsBool bool
  | JsNumber int
  | JsString string
  | JsArray "json list"
  | JsObject "(string \<times> json) list"

text \<open>
  The schema builders that the source uses: \<^verbatim>\<open>z.string()\<close> with its checks \<^verbatim>\<open>.min(n)\<close>, \<^verbatim>\<open>.max(n)\<close>
  and \<^verbatim>\<open>.datetime()\<close>, \<^verbatim>\<open>z.boolean()\<close>, \<^verbatim>\<open>z.array(el).max(n)\<close>, \<^verbatim>\<open>.optional()\<close>, \<^verbatim>\<open>.nullable()\<close> and
  \<^verbatim>\<open>.default(v)\<close>; \<^verbatim>\<open>z.object({...})\<close> is the list of its keys with their schemas.
\<close>

datatype zcheck = ZMin nat | ZMax nat | ZDatetime

datatype zschema =
    ZString "zcheck list"
  | ZBoolean
  | ZArray zschema "nat option"
  | ZOptional zschema
  | ZNullable zschema
  | ZDefault zschema json

type_synonym zobject = "(string \<times> zschema) list"

text \<open>The two schemas, as the source declares them.\<close>

definition noteCreateSchema :: zobject where
  "noteCreateSchema =
     [(''title'', ZString [ZMin 1, ZMax 100]),
      (''content'', ZString [ZMin 1, ZMax 1000]),
      (''tags'', ZDefault (ZOptional (ZArray (ZString [ZMin 1, ZMax 20]) (Some 10))) (JsArray [])),
      (''dueDate'', ZNullable (ZOptional (ZString [ZDatetime])))]"

definition noteUpdateSchema :: zobject where
  "noteUpdateSchema =
     [(''title'', ZOptional (ZString [ZMin 1, ZMax 100])),
      (''content'', ZOptional (ZString [ZMin 1, ZMax 1000])),
      (''tags'', ZOptional (ZArray (ZString [ZMin 1, ZMax 20]) (Some 10))),
      (''dueDate'', ZNullable (ZOptional (ZString [ZDatetime]))),
      (''isArchived'', ZOptional ZBoolean),
      (''isDone'', ZOptional ZBoolean)]"

text \<open>
  A violation names the path of the failing field (a key of the payload, or a key and the
  index of an element) and the rule that is broken.
\<close>

datatype seg = Key string | Idx nat

type_synonym path = "seg list"

datatype rule = RequiredMissing | WrongType | TooShort | TooLong | ExceedsCount | MalformedDatetime

type_synonym issue = "path \<times> rule"

text \<open>
  Modelled from the spec: when a check of a string schema fails. The zod library is not part of
  the repository; \<open>dt\<close> stands for its test of an ISO-8601 datetime, which the specification
  does not spell out.
\<close>

definition check_fails :: "(string \<Rightarrow> bool) \<Rightarrow> zcheck \<Rightarrow> string \<Rightarrow> bool" where
  "check_fails dt c s =
     (case c of ZMin n \<Rightarrow> length s < n | ZMax n \<Rightarrow> n < length s | ZDatetime \<Rightarrow> \<not> dt s)"

text \<open>Modelled from the spec: the rule reported for a failed check of the zod library.\<close>

definition check_rule :: "zcheck \<Rightarrow> rule" where
  "check_rule c = (case c of ZMin n \<Rightarrow> TooShort | ZMax n \<Rightarrow> TooLong | ZDatetime \<Rightarrow> MalformedDatetime)"

text \<open>
  Modelled from the spec: what the zod library reports for a value of the wrong type, or for a
  required value that is missing (\<open>None\<close> is \<^verbatim>\<open>undefined\<close>).
\<close>

definition type_issue :: "path \<Rightarrow> json option \<Rightarrow> issue list" where
  "type_issue p v = (case v of None \<Rightarrow> [(p, RequiredMissing)] | Some _ \<Rightarrow> [(p, WrongType)])"

text \<open>
  Modelled from the spec: the violations that the zod library's \<^verbatim>\<open>parse\<close> finds for one field, all
  of them, in order: every failed check of a string, the count of an array and then each of its
  elements under its index. An optional field may be absent, a nullable one \<^verbatim>\<open>null\<close>, and a
  default stands in for an absent value.
\<close>

fun zissues :: "(string \<Rightarrow> bool) \<Rightarrow> zschema \<Rightarrow> path \<Rightarrow> json option \<Rightarrow> issue list" where
  "zissues dt (ZString cs) p v =
     (case v of
        Some (JsString s) \<Rightarrow> map (\<lambda>c. (p, check_rule c)) (filter (\<lambda>c. check_fails dt c s) cs)
      | _ \<Rightarrow> type_issue p v)"
| "zissues dt ZBoolean p v = (case v of Some (JsBool b) \<Rightarrow> [] | _ \<Rightarrow> type_issue p v)"
| "zissues dt (ZArray el m) p v =
     (case v of
        Some (JsArray xs) \<Rightarrow>
          (case m of None \<Rightarrow> [] | Some k \<Rightarrow> if k < length xs then [(p, ExceedsCount)] else []) @
          concat (map (\<lambda>ix. zissues dt el (p @ [Idx (fst ix)]) (Some (snd ix))) (enumerate 0 xs))
      | _ \<Rightarrow> type_issue p v)"
| "zissues dt (ZOptional sch) p v = (case v of None \<Rightarrow> [] | Some _ \<Rightarrow> zissues dt sch p v)"
| "zissues dt (ZNullable sch) p v = (case v of Some JsNull \<Rightarrow> [] | _ \<Rightarrow> zissues dt sch p v)"
| "zissues dt (ZDefault sch d) p v =
     (case v of None \<Rightarrow> zissues dt sch p (Some d) | Some _ \<Rightarrow> zissues dt sch p v)"

text \<open>
  Modelled from the spec: the value that the zod library's \<^verbatim>\<open>parse\<close> returns for a valid field:
  the value itself, or the default for an absent one.
\<close>

fun zoutput :: "zschema \<Rightarrow> json option \<Rightarrow> json option" where
  "zoutput (ZDefault sch d) v = (case v of None \<Rightarrow> zoutput sch (Some d) | Some _ \<Rightarrow> zoutput sch v)"
| "zoutput (ZOptional sch) v = (case v of None \<Rightarrow> None | Some _ \<Rightarrow> zoutput sch v)"
| "zoutput (ZNullable sch) v = (case v of Some JsNull \<Rightarrow> Some JsNull | _ \<Rightarrow> zoutput sch v)"
| "zoutput sch v = v"

text \<open>
  Modelled from the spec: the violations that the zod library's \<^verbatim>\<open>parse\<close> finds for an object
  schema: a payload that is not an object is a violation at the empty path, and otherwise the
  violations of every field of the schema, one field after the other.
\<close>

definition object_issues :: "(string \<Rightarrow> bool) \<Rightarrow> zobject \<Rightarrow> json \<Rightarrow> issue list" where
  "object_issues dt shape body =
     (case body of
        JsObject kvs \<Rightarrow> concat (map (\<lambda>f. zissues dt (snd f) [Key (fst f)] (map_of kvs (fst f))) shape)
      | _ \<Rightarrow> [([], WrongType)])"

text \<open>
  Modelled from the spec: the normalized payload of the zod library's \<^verbatim>\<open>parse\<close>: the recognized
  keys only, with the defaults applied.
\<close>

definition object_output :: "zobject \<Rightarrow> json \<Rightarrow> json" where
  "object_output shape body =
     (case body of
        JsObject kvs \<Rightarrow>
          JsObject (concat (map (\<lambda>f. case zoutput (snd f) (map_of kvs (fst f)) of
                                         None \<Rightarrow> [] | Some v \<Rightarrow> [(fst f, v)]) shape))
      | _ \<Rightarrow> body)"

text \<open>
  Modelled from the spec: \<^verbatim>\<open>schema.parse(body)\<close> of the zod library: the normalized payload, or the
  error whose \<^verbatim>\<open>errors\<close> is the list of all violations (\<open>Inl\<close>).
\<close>

definition parse :: "(string \<Rightarrow> bool) \<Rightarrow> zobject \<Rightarrow> json \<Rightarrow> issue list + json" where
  "parse dt schema body =
     (let errors = object_issues dt schema body
      in if errors = [] then Inr (object_output schema body) else Inl errors)"

text \<open>
  The middleware \<^verbatim>\<open>validate(schema)\<close>. On success it stores the payload in \<^verbatim>\<open>req.validatedData\<close> and
  calls \<^verbatim>\<open>next()\<close>, the rest of the route, which is the argument \<open>next\<close> here and is the only
  thing that can touch the store; on failure it answers 400 with the error's list and does not
  call \<^verbatim>\<open>next\<close>.
\<close>

datatype 'r handled = Response400 string "issue list" | Next 'r

definition validate ::
  "(string \<Rightarrow> bool) \<Rightarrow> zobject \<Rightarrow> (json \<Rightarrow> store \<Rightarrow> 'r \<times> store) \<Rightarrow> json \<Rightarrow> store
     \<Rightarrow> 'r handled \<times> store" where
  "validate dt schema next body s =
     (case parse dt schema body of
        Inr validatedData \<Rightarrow> (let (r, s1) = next validatedData s in (Next r, s1))
      | Inl errors \<Rightarrow> (Response400 ''Validation error'' errors, s))"

text \<open>
  The rules of the data model in the words of the specification. A text field is 1 to \<open>hi\<close>
  characters; \<open>tags\<close> is a sequence of at most 10 tags of 1 to 20 characters each; \<open>dueDate\<close> is
  null or an ISO-8601 datetime string; a status flag is a boolean. On create, title and content
  are required and the flags are not part of the schema; on update every field is optional.
\<close>

definition text_breaks :: "nat \<Rightarrow> nat \<Rightarrow> json \<Rightarrow> rule \<Rightarrow> bool" where
  "text_breaks lo hi v r =
     (case v of
        JsString s \<Rightarrow> (r = TooShort \<and> length s < lo) \<or> (r = TooLong \<and> hi < length s)
      | _ \<Rightarrow> r = WrongType)"

definition tags_breaks :: "json \<Rightarrow> issue \<Rightarrow> bool" where
  "tags_breaks v e =
     (case v of
        JsArray xs \<Rightarrow>
          (e = ([Key ''tags''], ExceedsCount) \<and> 10 < length xs) \<or>
          (\<exists>i < length xs. \<exists>r. e = ([Key ''tags'', Idx i], r) \<and> text_breaks 1 20 (xs ! i) r)
      | _ \<Rightarrow> e = ([Key ''tags''], WrongType))"

definition dueDate_breaks :: "(string \<Rightarrow> bool) \<Rightarrow> json \<Rightarrow> rule \<Rightarrow> bool" where
  "dueDate_breaks dt v r =
     (case v of
        JsNull \<Rightarrow> False
      | JsString s \<Rightarrow> r = MalformedDatetime \<and> \<not> dt s
      | _ \<Rightarrow> r = WrongType)"

definition flag_breaks :: "json \<Rightarrow> rule \<Rightarrow> bool" where
  "flag_breaks v r = (case v of JsBool b \<Rightarrow> False | _ \<Rightarrow> r = WrongType)"

definition create_violation :: "(string \<Rightarrow> bool) \<Rightarrow> (string \<times> json) list \<Rightarrow> issue \<Rightarrow> bool" where
  "create_violation dt kvs e =
     ((case map_of kvs ''title'' of
         None \<Rightarrow> e = ([Key ''title''], RequiredMissing)
       | Some v \<Rightarrow> \<exists>r. e = ([Key ''title''], r) \<and> text_breaks 1 100 v r) \<or>
      (case map_of kvs ''content'' of
         None \<Rightarrow> e = ([Key ''content''], RequiredMissing)
       | Some v \<Rightarrow> \<exists>r. e = ([Key ''content''], r) \<and> text_breaks 1 1000 v r) \<or>
      (case map_of kvs ''tags'' of None \<Rightarrow> False | Some v \<Rightarrow> tags_breaks v e) \<or>
      (case map_of kvs ''dueDate'' of
         None \<Rightarrow> False
       | Some v \<Rightarrow> \<exists>r. e = ([Key ''dueDate''], r) \<and> dueDate_breaks dt v r))"

definition update_violation :: "(string \<Rightarrow> bool) \<Rightarrow> (string \<times> json) list \<Rightarrow> issue \<Rightarrow> bool" where
  "update_violation dt kvs e =
     ((case map_of kvs ''title'' of
         None \<Rightarrow> False
       | Some v \<Rightarrow> \<exists>r. e = ([Key ''title''], r) \<and> text_breaks 1 100 v r) \<or>
      (case map_of kvs ''content'' of
         None \<Rightarrow> False
       | Some v \<Rightarrow> \<exists>r. e = ([Key ''content''], r) \<and> text_breaks 1 1000 v r) \<or>
      (case map_of kvs ''tags'' of None \<Rightarrow> False | Some v \<Rightarrow> tags_breaks v e) \<or>
      (case map_of kvs ''dueDate'' of
         None \<Rightarrow> False
       | Some v \<Rightarrow> \<exists>r. e = ([Key ''dueDate''], r) \<and> dueDate_breaks dt v r) \<or>
      (case map_of kvs ''isArchived'' of
         None \<Rightarrow> False
       | Some v \<Rightarrow> \<exists>r. e = ([Key ''isArchived''], r) \<and> flag_breaks v r) \<or>
      (case map_of kvs ''isDone'' of
         None \<Rightarrow> False
       | Some v \<Rightarrow> \<exists>r. e = ([Key ''isDone''], r) \<and> flag_breaks v r))"

text \<open>Names for two parts of the violation list, used in the proofs.\<close>

definition element_issues :: "(string \<Rightarrow> bool) \<Rightarrow> path \<Rightarrow> nat \<Rightarrow> json list \<Rightarrow> issue list" where
  "element_issues dt p n xs =
     concat (map (\<lambda>ix. zissues dt (ZString [ZMin 1, ZMax 20]) (p @ [Idx (fst ix)]) (Some (snd ix)))
                 (enumerate n xs))"

definition tags_issues :: "(string \<Rightarrow> bool) \<Rightarrow> json option \<Rightarrow> issue list" where
  "tags_issues dt v = zissues dt (ZOptional (ZArray (ZString [ZMin 1, ZMax 20]) (Some 10))) [Key ''tags''] v"

section \<open>Example data\<close>

definition note_milk :: Note where
  "note_milk = \<lparr>note_id = 1, title = ''Buy Milk'', content = ''2%'', tags = [''errand''],
                 dueDate = None, isArchived = False, isDone = False,
                 createdAt = ''2025-01-01T10:30:00.000Z'',
                 updatedAt = ''2025-01-01T10:30:00.000Z''\<rparr>"

definition note_report :: Note where
  "note_report = \<lparr>note_id = 2, title = ''Report'', content = ''has foo inside'',
                   tags = [''work'', ''urgent''], dueDate = Some None, isArchived = True,
                   isDone = False, createdAt = ''2025-01-02T08:00:00.000Z'',
                   updatedAt = ''2025-01-03T09:15:00.000Z''\<rparr>"

definition store_one :: store where
  "store_one = \<lparr>notes_arr = [note_milk], currentId = 2\<rparr>"

definition store_two :: store where
  "store_two = \<lparr>notes_arr = [note_milk, note_report], currentId = 3\<rparr>"

definition filters_foo_work :: filters where
  "filters_foo_work = no_filters\<lparr>f_q := JStr ''FOO'', f_tags := JArr [''home'', ''work''],
                                  f_isArchived := JBool True\<rparr>"

definition payload_milk :: createPayload where
  "payload_milk = \<lparr>p_title = ''Buy Milk'', p_content = ''2%'', p_tags = [''errand''],
                    p_dueDate = None\<rparr>"

definition update_title_x :: updatePayload where
  "update_title_x = no_update\<lparr>u_title := Some ''x''\<rparr>"

definition ops_example :: "op list" where
  "ops_example =
     [Create ''2025-01-01T10:30:00.000Z'' ''2025-01-01T10:30:00.000Z'' payload_milk,
      Delete 1,
      GetAll no_filters,
      Create ''2025-01-01T10:31:00.000Z'' ''2025-01-01T10:31:00.000Z'' payload_milk]"

text \<open>
  An instance for the datetime test: the shape that \<^verbatim>\<open>toISOString\<close> prints, \<open>d\<close> standing for a
  digit.
\<close>

fun matches_shape :: "string \<Rightarrow> string \<Rightarrow> bool" where
  "matches_shape [] [] = True"
| "matches_shape (p # ps) (c # cs) =
     ((if p = CHR ''d'' then digit_of 10 c \<noteq> None else p = c) \<and> matches_shape ps cs)"
| "matches_shape _ _ = False"

definition example_datetime :: "string \<Rightarrow> bool" where
  "example_datetime s = matches_shape ''dddd-dd-ddTdd:dd:dd.dddZ'' s"

definition body_two_missing :: "(string \<times> json) list" where
  "body_two_missing = [(''title'', JsString ''''), (''tags'', JsArray [JsString ''ok'', JsString '''']),
                       (''dueDate'', JsString ''tomorrow'')]"

section \<open>What \<open>getAll\<close> computes\<close>

lemma toLowerCase_Nil: "toLowerCase [] = []" by (simp add: toLowerCase_def)

lemma pass_q_falsy: "\<not> truthy qv \<Longrightarrow> pass_q qv n"
  by (cases qv) (simp_all add: pass_q_def toLowerCase_Nil)

lemma pass_q_JStr:
  "pass_q (JStr q) n \<longleftrightarrow>
     str_includes (toLowerCase (title n)) (toLowerCase q) \<or>
     str_includes (toLowerCase (content n)) (toLowerCase q)"
  by (simp add: pass_q_def str_includes_def)

lemma filter_q_Inr: "filter_q qv ns = Inr ms \<Longrightarrow> ms = filter (pass_q qv) ns"
proof (cases "truthy qv")
  case False
  assume "filter_q qv ns = Inr ms"
  with False have "ms = ns" by (simp add: filter_q_def)
  moreover have "filter (pass_q qv) ns = ns"
    using False by (simp add: pass_q_falsy)
  ultimately show ?thesis by simp
next
  case True
  assume a: "filter_q qv ns = Inr ms"
  with True obtain q where q: "qv = JStr q"
    by (cases qv) (simp_all add: filter_q_def)
  have "ms = filter (\<lambda>n. str_includes (toLowerCase (title n)) (toLowerCase q) \<or>
                           str_includes (toLowerCase (content n)) (toLowerCase q)) ns"
    using a True q by (simp add: filter_q_def Let_def)
  then show ?thesis
    unfolding q by (simp add: pass_q_JStr cong: filter_cong)
qed

lemma some_shares: "some (\<lambda>tag. arr_includes (tags n) tag) ts = shares_tag ts n"
  by (auto simp: some_def arr_includes_def shares_tag_def list_ex_iff)

lemma pass_tags_JArr: "pass_tags (JArr ts) n \<longleftrightarrow> ts = [] \<or> shares_tag ts n"
  by (simp add: pass_tags_def)

lemma pass_tags_other: "\<not> (\<exists>ts. tv = JArr ts) \<Longrightarrow> pass_tags tv n"
  by (cases tv) (auto simp: pass_tags_def)

lemma filter_tags_Inr: "filter_tags tv ns = Inr ms \<Longrightarrow> ms = filter (pass_tags tv) ns"
proof (cases tv)
  case (JArr ts)
  assume a: "filter_tags tv ns = Inr ms"
  show ?thesis
  proof (cases "ts = []")
    case True
    with a JArr show ?thesis by (simp add: filter_tags_def js_length_def pass_tags_JArr)
  next
    case False
    with a JArr have "ms = filter (shares_tag ts) ns"
      by (simp add: filter_tags_def js_length_def some_shares)
    with False JArr show ?thesis by (simp add: pass_tags_JArr cong: filter_cong)
  qed
next
  case (JStr x)
  assume a: "filter_tags tv ns = Inr ms"
  have "ms = ns" using a JStr by (auto simp: filter_tags_def js_length_def split: if_splits)
  then show ?thesis using JStr by (simp add: pass_tags_other)
qed (simp_all add: filter_tags_def js_length_def pass_tags_other)

lemma filter_isArchived_eq: "filter_isArchived v ns = filter (\<lambda>n. pass_flag v (isArchived n)) ns"
  by (cases v) (auto simp: filter_isArchived_def pass_flag_def intro: filter_cong)

lemma filter_isDone_eq: "filter_isDone v ns = filter (\<lambda>n. pass_flag v (isDone n)) ns"
  by (cases v) (auto simp: filter_isDone_def pass_flag_def intro: filter_cong)

lemma getAll_snd: "snd (getAll f s) = s"
  by (simp add: getAll_def Let_def split: sum.splits)

lemma getAll_Inr:
  assumes "fst (getAll f s) = Inr r"
  shows "r = \<lparr>r_notes = slice (filter (passes f) (notes_arr s)) (parseInt_or (f_offset f) 0)
                   (parseInt_or (f_offset f) 0 + parseInt_or (f_limit f) 10),
              r_total = int (length (filter (passes f) (notes_arr s))),
              r_limit = parseInt_or (f_limit f) 10,
              r_offset = parseInt_or (f_offset f) 0,
              r_hasMore = (parseInt_or (f_offset f) 0 + parseInt_or (f_limit f) 10
                            < int (length (filter (passes f) (notes_arr s))))\<rparr>"
proof -
  obtain ns1 where q: "filter_q (f_q f) (notes_arr s) = Inr ns1"
    using assms by (auto simp: getAll_def split: sum.splits)
  obtain ns2 where t: "filter_tags (f_tags f) ns1 = Inr ns2"
    using assms q by (auto simp: getAll_def split: sum.splits)
  have ns1: "ns1 = filter (pass_q (f_q f)) (notes_arr s)" using q by (rule filter_q_Inr)
  have ns2: "ns2 = filter (pass_tags (f_tags f)) ns1" using t by (rule filter_tags_Inr)
  have M: "filter_isDone (f_isDone f) (filter_isArchived (f_isArchived f) ns2)
           = filter (passes f) (notes_arr s)"
    unfolding filter_isDone_eq filter_isArchived_eq ns2 ns1 filter_filter passes_def
    by (rule filter_cong) auto
  show ?thesis
    using assms q t M by (simp add: getAll_def Let_def)
qed

lemma getAll_typed:
  assumes "typed_filters f"
  shows "\<exists>r. fst (getAll f s) = Inr r"
proof -
  have "\<exists>ns1. filter_q (f_q f) (notes_arr s) = Inr ns1"
    using assms by (cases "f_q f") (simp_all add: typed_filters_def filter_q_def Let_def)
  then obtain ns1 where q: "filter_q (f_q f) (notes_arr s) = Inr ns1" ..
  have "\<exists>ns2. filter_tags (f_tags f) ns1 = Inr ns2"
    using assms
    by (cases "f_tags f") (simp_all add: typed_filters_def filter_tags_def js_length_def)
  then obtain ns2 where t: "filter_tags (f_tags f) ns1 = Inr ns2" ..
  show ?thesis using q t by (simp add: getAll_def Let_def)
qed

lemmas getAll_eval = getAll_def no_filters_def filter_q_def filter_tags_def js_length_def
  filter_isArchived_def filter_isDone_def parseInt_or_def slice_def Let_def store_one_def store_two_def

lemma getAll_limit_cong:
  "parseInt_or (f_limit f) 10 = parseInt_or (f_limit g) 10 \<Longrightarrow> f_q f = f_q g \<Longrightarrow> f_tags f = f_tags g \<Longrightarrow>
   f_isArchived f = f_isArchived g \<Longrightarrow> f_isDone f = f_isDone g \<Longrightarrow>
   parseInt_or (f_offset f) 0 = parseInt_or (f_offset g) 0 \<Longrightarrow> getAll f s = getAll g s"
  by (simp add: getAll_def Let_def split: sum.splits)

lemma passes_cong:
  "f_q f = f_q g \<Longrightarrow> f_tags f = f_tags g \<Longrightarrow>
   f_isArchived f = f_isArchived g \<Longrightarrow> f_isDone f = f_isDone g \<Longrightarrow> passes f = passes g"
  by (rule ext) (simp add: passes_def)

lemma set_slice: "set (slice xs a b) \<subseteq> set xs"
  unfolding slice_def Let_def
  by (meson set_take_subset set_drop_subset subset_trans)

lemma slice_all: "int (length xs) \<le> b \<Longrightarrow> slice xs 0 b = xs"
  by (simp add: slice_def Let_def)

lemma getAll_isl:
  "f_q f = f_q g \<Longrightarrow> f_tags f = f_tags g \<Longrightarrow> isl (fst (getAll f s)) = isl (fst (getAll g s))"
  by (simp add: getAll_def Let_def split: sum.splits)

section \<open>Filtering\<close>

text \<open>
  Claim C1, as amended. For every store and every filter combination (\<open>q\<close> absent or a string,
  \<open>tags\<close> absent or an array of strings, any \<open>isArchived\<close> and \<open>isDone\<close>), \<open>getAll\<close> succeeds and
  combines the filters with logical AND: \<open>total\<close> counts the notes that pass every filter, the
  returned notes are the page \<open>[offset, offset + limit)\<close> of those notes in the order of the
  collection, every returned note passes every filter, and a page that covers the whole result
  returns exactly the passing notes. The \<open>q\<close> filter passes iff the lowercased \<open>q\<close> is a substring of
  the lowercased title or content; the \<open>tags\<close> filter with a non-empty tag sequence passes iff
  the note shares a tag with it, and with an empty sequence it passes every note; a flag filter
  passes iff the note's flag equals the given boolean; an absent filter passes every note.
\<close>

theorem getAll_filters_and:
  assumes "typed_filters f"
  shows "\<exists>r. fst (getAll f s) = Inr r \<and>
             r_total r = int (length (filter (passes f) (notes_arr s))) \<and>
             r_notes r = slice (filter (passes f) (notes_arr s)) (r_offset r) (r_offset r + r_limit r) \<and>
             (\<forall>n \<in> set (r_notes r). n \<in> set (notes_arr s) \<and> passes f n) \<and>
             (r_offset r = 0 \<and> r_total r \<le> r_limit r \<longrightarrow> r_notes r = filter (passes f) (notes_arr s))"
proof -
  obtain r where r: "fst (getAll f s) = Inr r"
    using getAll_typed [OF assms] by blast
  note eq = getAll_Inr [OF r]
  let ?M = "filter (passes f) (notes_arr s)"
  have total: "r_total r = int (length ?M)"
    by (subst eq) simp
  have page: "r_notes r = slice ?M (r_offset r) (r_offset r + r_limit r)"
    by (subst (1 2 3 4) eq) simp
  have sub: "n \<in> set (notes_arr s) \<and> passes f n" if "n \<in> set (r_notes r)" for n
  proof -
    from that page have "n \<in> set ?M" using set_slice by fastforce
    then show ?thesis by simp
  qed
  have full: "r_notes r = ?M" if "r_offset r = 0 \<and> r_total r \<le> r_limit r"
    using that page total by (simp add: slice_all)
  show ?thesis using r total page sub full by blast
qed

text \<open>
  The witness: searching \<open>FOO\<close> among archived notes tagged \<open>home\<close> or \<open>work\<close> finds the report.
\<close>

theorem getAll_filters_and_witness:
  "typed_filters filters_foo_work \<and>
   fst (getAll filters_foo_work store_two)
     = Inr \<lparr>r_notes = [note_report], r_total = 1, r_limit = 10, r_offset = 0, r_hasMore = False\<rparr> \<and>
   filter (passes filters_foo_work) (notes_arr store_two) = [note_report]"
proof -
  have h: "typed_filters filters_foo_work"
    by (simp add: typed_filters_def filters_foo_work_def no_filters_def)
  have e: "fst (getAll filters_foo_work store_two)
     = Inr \<lparr>r_notes = [note_report], r_total = 1, r_limit = 10, r_offset = 0, r_hasMore = False\<rparr>"
    by code_simp
  show ?thesis
    using h e getAll_filters_and [OF h, of store_two] by auto
qed

text \<open>
  Without the amendment the claim fails: with an empty tag sequence the note \<open>note_milk\<close> shares
  no tag with the filter, and is returned and counted all the same.
\<close>

theorem getAll_filters_and_counterexample:
  "fst (getAll (no_filters\<lparr>f_tags := JArr []\<rparr>) store_one)
     = Inr \<lparr>r_notes = [note_milk], r_total = 1, r_limit = 10, r_offset = 0, r_hasMore = False\<rparr>
   \<and> \<not> claimed_passes (no_filters\<lparr>f_tags := JArr []\<rparr>) note_milk"
  by (simp add: getAll_eval claimed_passes_def claimed_pass_tags_def shares_tag_def)

text \<open>
  Claim C9. For every store and every other filter, a \<open>tags\<close> filter that is present but empty
  gives exactly the result of no \<open>tags\<close> filter at all.
\<close>

theorem getAll_empty_tags_ignored:
  "getAll (f\<lparr>f_tags := JArr []\<rparr>) s = getAll (f\<lparr>f_tags := JUndefined\<rparr>) s"
  by (simp add: getAll_def filter_tags_def js_length_def Let_def split: sum.splits)

theorem getAll_empty_tags_ignored_witness:
  "fst (getAll (no_filters\<lparr>f_tags := JArr []\<rparr>) store_two)
     = Inr \<lparr>r_notes = [note_milk, note_report], r_total = 2, r_limit = 10, r_offset = 0, r_hasMore = False\<rparr>"
  using getAll_empty_tags_ignored [of no_filters store_two]
  by (simp add: getAll_eval)

text \<open>
  Claim C10. For every store and every filter combination, \<open>getAll\<close> leaves the collection
  (contents and order) and the id counter as they were, also when it throws.
\<close>

theorem getAll_store_unchanged:
  "notes_arr (snd (getAll f s)) = notes_arr s \<and> currentId (snd (getAll f s)) = currentId s"
  by (simp add: getAll_snd)

section \<open>Pagination\<close>

text \<open>
  Claim C2, as amended. For every store and every filter set, a limit equal to 0 (the number, or
  text that parses to it) is falsy in \<^verbatim>\<open>parseInt(filters.limit) || 10\<close> and behaves exactly as
  limit 10: the reported limit is 10, the items are the page of ten from the offset, and \<open>total\<close>
  still equals the number of notes matching the filters.
\<close>

theorem getAll_limit_zero:
  assumes "parseInt v = Some 0"
  shows "getAll (f\<lparr>f_limit := v\<rparr>) s = getAll (f\<lparr>f_limit := JNum 10\<rparr>) s \<and>
         (\<forall>r. fst (getAll (f\<lparr>f_limit := v\<rparr>) s) = Inr r \<longrightarrow>
              r_limit r = 10 \<and>
              r_total r = int (length (filter (passes f) (notes_arr s))) \<and>
              r_notes r = slice (filter (passes f) (notes_arr s)) (r_offset r) (r_offset r + 10))"
proof -
  have l: "parseInt_or (f_limit (f\<lparr>f_limit := v\<rparr>)) 10 = 10"
    using assms by (simp add: parseInt_or_def)
  have p: "passes (f\<lparr>f_limit := v\<rparr>) = passes f"
    by (rule passes_cong) simp_all
  have "getAll (f\<lparr>f_limit := v\<rparr>) s = getAll (f\<lparr>f_limit := JNum 10\<rparr>) s"
    using l by (intro getAll_limit_cong) (simp_all add: parseInt_or_def)
  moreover have "r_limit r = 10 \<and>
              r_total r = int (length (filter (passes f) (notes_arr s))) \<and>
              r_notes r = slice (filter (passes f) (notes_arr s)) (r_offset r) (r_offset r + 10)"
    if "fst (getAll (f\<lparr>f_limit := v\<rparr>) s) = Inr r" for r
    using getAll_Inr [OF that] l p by simp
  ultimately show ?thesis by blast
qed

theorem getAll_limit_zero_witness:
  "parseInt (JStr ''0'') = Some 0 \<and>
   fst (getAll (no_filters\<lparr>f_limit := JStr ''0''\<rparr>) store_one) =
   fst (getAll (no_filters\<lparr>f_limit := JNum 10\<rparr>) store_one)"
proof -
  have h: "parseInt (JStr ''0'') = Some 0"
    by (simp add: parseInt_str_def is_space_def digit_of_def digits_value_def)
  show ?thesis using h getAll_limit_zero [OF h, of no_filters store_one] by simp
qed

text \<open>
  As the claim words it (limit 0 gives no items) it fails: the one stored note is returned.
\<close>

theorem getAll_limit_zero_counterexample:
  "fst (getAll (no_filters\<lparr>f_limit := JNum 0\<rparr>) store_one)
     = Inr \<lparr>r_notes = [note_milk], r_total = 1, r_limit = 10, r_offset = 0, r_hasMore = False\<rparr>"
  by (simp add: getAll_eval)

text \<open>
  Claim C3, as amended. For every store, a limit for which \<^verbatim>\<open>parseInt\<close> gives \<open>NaN\<close> behaves
  exactly as limit 10, and such an offset exactly as offset 0. No limit and no offset, negative
  or non-numeric or other, makes \<open>getAll\<close> throw: whether it throws does not depend on them, and
  with \<open>q\<close> and \<open>tags\<close> of the right type it never does. A negative limit or offset is not
  replaced by the default: it is reported as given and handed to \<^verbatim>\<open>slice\<close>.
\<close>

theorem getAll_non_numeric_paging:
  "(parseInt v = None \<longrightarrow> getAll (f\<lparr>f_limit := v\<rparr>) s = getAll (f\<lparr>f_limit := JNum 10\<rparr>) s) \<and>
   (parseInt v = None \<longrightarrow> getAll (f\<lparr>f_offset := v\<rparr>) s = getAll (f\<lparr>f_offset := JNum 0\<rparr>) s) \<and>
   (isl (fst (getAll (f\<lparr>f_limit := v, f_offset := w\<rparr>) s)) \<longleftrightarrow> isl (fst (getAll f s))) \<and>
   (typed_filters f \<longrightarrow> (\<exists>r. fst (getAll (f\<lparr>f_limit := v, f_offset := w\<rparr>) s) = Inr r)) \<and>
   (\<forall>n r. n < 0 \<and> parseInt v = Some n \<and> fst (getAll (f\<lparr>f_limit := v\<rparr>) s) = Inr r
       \<longrightarrow> r_limit r = n \<and>
           r_notes r = slice (filter (passes f) (notes_arr s)) (r_offset r) (r_offset r + n)) \<and>
   (\<forall>n r. n < 0 \<and> parseInt v = Some n \<and> fst (getAll (f\<lparr>f_offset := v\<rparr>) s) = Inr r
       \<longrightarrow> r_offset r = n \<and>
           r_notes r = slice (filter (passes f) (notes_arr s)) n (n + r_limit r))"
proof (intro conjI impI allI)
  assume "parseInt v = None"
  then show "getAll (f\<lparr>f_limit := v\<rparr>) s = getAll (f\<lparr>f_limit := JNum 10\<rparr>) s"
    by (intro getAll_limit_cong) (simp_all add: parseInt_or_def)
next
  assume "parseInt v = None"
  then show "getAll (f\<lparr>f_offset := v\<rparr>) s = getAll (f\<lparr>f_offset := JNum 0\<rparr>) s"
    by (intro getAll_limit_cong) (simp_all add: parseInt_or_def)
next
  show "isl (fst (getAll (f\<lparr>f_limit := v, f_offset := w\<rparr>) s)) = isl (fst (getAll f s))"
    by (rule getAll_isl) simp_all
next
  assume "typed_filters f"
  then have "typed_filters (f\<lparr>f_limit := v, f_offset := w\<rparr>)"
    by (simp add: typed_filters_def)
  then show "\<exists>r. fst (getAll (f\<lparr>f_limit := v, f_offset := w\<rparr>) s) = Inr r"
    by (rule getAll_typed)
next
  fix n r
  assume a: "n < 0 \<and> parseInt v = Some n \<and> fst (getAll (f\<lparr>f_limit := v\<rparr>) s) = Inr r"
  have p: "passes (f\<lparr>f_limit := v\<rparr>) = passes f" by (rule passes_cong) simp_all
  have l: "parseInt_or v 10 = n" using a by (simp add: parseInt_or_def)
  from a have r: "fst (getAll (f\<lparr>f_limit := v\<rparr>) s) = Inr r" by simp
  show "r_limit r = n"
    by (subst getAll_Inr [OF r]) (simp add: l)
  show "r_notes r = slice (filter (passes f) (notes_arr s)) (r_offset r) (r_offset r + n)"
    by (subst (1 2 3) getAll_Inr [OF r]) (simp add: l p)
next
  fix n r
  assume a: "n < 0 \<and> parseInt v = Some n \<and> fst (getAll (f\<lparr>f_offset := v\<rparr>) s) = Inr r"
  have p: "passes (f\<lparr>f_offset := v\<rparr>) = passes f" by (rule passes_cong) simp_all
  have l: "parseInt_or v 0 = n" using a by (simp add: parseInt_or_def)
  from a have r: "fst (getAll (f\<lparr>f_offset := v\<rparr>) s) = Inr r" by simp
  show "r_offset r = n"
    by (subst getAll_Inr [OF r]) (simp add: l)
  show "r_notes r = slice (filter (passes f) (notes_arr s)) n (n + r_limit r)"
    by (subst (1 2) getAll_Inr [OF r]) (simp add: l p)
qed

theorem getAll_non_numeric_paging_witness:
  "parseInt (JStr ''abc'') = None \<and>
   fst (getAll (no_filters\<lparr>f_limit := JStr ''abc''\<rparr>) store_two)
     = Inr \<lparr>r_notes = [note_milk, note_report], r_total = 2, r_limit = 10, r_offset = 0,
            r_hasMore = False\<rparr>"
proof -
  have h: "parseInt (JStr ''abc'') = None"
    by (simp add: parseInt_str_def is_space_def digit_of_def)
  have e: "fst (getAll (no_filters\<lparr>f_limit := JNum 10\<rparr>) store_two)
     = Inr \<lparr>r_notes = [note_milk, note_report], r_total = 2, r_limit = 10, r_offset = 0,
            r_hasMore = False\<rparr>"
    by (simp add: getAll_eval)
  show ?thesis
    using h e getAll_non_numeric_paging [of "JStr ''abc''" no_filters store_two] by simp
qed

text \<open>
  With a negative limit or offset the claim fails: limit \<open>-1\<close> drops the last note where limit
  10 returns both, and offset \<open>-1\<close> returns only the last note where offset 0 returns both.
\<close>

theorem getAll_negative_paging_counterexample:
  "fst (getAll (no_filters\<lparr>f_limit := JNum (-1)\<rparr>) store_two)
     = Inr \<lparr>r_notes = [note_milk], r_total = 2, r_limit = -1, r_offset = 0, r_hasMore = True\<rparr> \<and>
   fst (getAll (no_filters\<lparr>f_limit := JNum 10\<rparr>) store_two)
     = Inr \<lparr>r_notes = [note_milk, note_report], r_total = 2, r_limit = 10, r_offset = 0,
            r_hasMore = False\<rparr> \<and>
   fst (getAll (no_filters\<lparr>f_offset := JNum (-1)\<rparr>) store_two)
     = Inr \<lparr>r_notes = [note_report], r_total = 2, r_limit = 10, r_offset = -1, r_hasMore = False\<rparr> \<and>
   fst (getAll (no_filters\<lparr>f_offset := JNum 0\<rparr>) store_two)
     = Inr \<lparr>r_notes = [note_milk, note_report], r_total = 2, r_limit = 10, r_offset = 0,
            r_hasMore = False\<rparr>"
  by (simp add: getAll_eval)

section \<open>Lookup and update\<close>

lemma findIndex_ge: "- 1 \<le> findIndex p xs"
  by (induction xs) (auto simp: Let_def)

lemma findIndex_none: "findIndex p xs = - 1 \<longleftrightarrow> find p xs = None"
proof (induction xs)
  case Nil
  then show ?case by simp
next
  case (Cons x xs)
  have "- 1 \<le> findIndex p xs" by (rule findIndex_ge)
  with Cons show ?case by (auto simp: Let_def)
qed

lemma findIndex_some:
  "find p xs = Some x \<Longrightarrow>
     0 \<le> findIndex p xs \<and> nat (findIndex p xs) < length xs \<and> xs ! nat (findIndex p xs) = x \<and>
     (\<forall>j < nat (findIndex p xs). \<not> p (xs ! j))"
proof (induction xs)
  case Nil
  then show ?case by simp
next
  case (Cons y ys)
  show ?case
  proof (cases "p y")
    case True
    with Cons.prems show ?thesis by simp
  next
    case False
    with Cons.prems have f: "find p ys = Some x" by simp
    note ih = Cons.IH [OF f]
    from ih have ne: "findIndex p ys \<noteq> - 1" by linarith
    have n: "nat (findIndex p ys + 1) = Suc (nat (findIndex p ys))" using ih by linarith
    have "\<not> p ((y # ys) ! j)" if "j < Suc (nat (findIndex p ys))" for j
      using that ih False by (cases j) auto
    with ih False ne n show ?thesis by (simp add: Let_def)
  qed
qed

lemma getById_None_update: "getById i s = None \<Longrightarrow> update t i u s = (None, s)"
  by (simp add: getById_def update_def findIndex_none [symmetric])

lemma getById_Some_update:
  assumes "getById i s = Some old"
  shows "update t i u s =
           (Some (merge_note old u t),
            s\<lparr>notes_arr := (notes_arr s)[nat (findIndex (\<lambda>n. note_id n = i) (notes_arr s)) := merge_note old u t]\<rparr>)"
proof -
  from assms have f: "find (\<lambda>n. note_id n = i) (notes_arr s) = Some old" by (simp add: getById_def)
  note fi = findIndex_some [OF f]
  from fi have "findIndex (\<lambda>n. note_id n = i) (notes_arr s) \<noteq> - 1" by linarith
  with fi show ?thesis by (simp add: update_def Let_def)
qed

lemma getById_Some_id: "getById i s = Some n \<Longrightarrow> note_id n = i \<and> n \<in> set (notes_arr s)"
  unfolding getById_def by (auto simp: find_Some_iff)

lemmas store_eval = getById_def update_def merge_note_def no_update_def Let_def
  store_one_def store_two_def note_milk_def note_report_def

text \<open>
  Claim C5. For every store that holds a note with the given id (the first such note, at
  position \<open>k\<close>) and every partial payload, \<open>update\<close> returns the updated note; in it every field
  the payload names has the payload's value, \<open>updatedAt\<close> is the clock reading, and every other
  field (\<open>id\<close> and \<open>createdAt\<close> among them) is as before; the note keeps its position \<open>k\<close>, every
  other position of the collection and the counter are unchanged. If no note has the id,
  \<open>update\<close> returns not-found and the store is unchanged.
\<close>

theorem update_frame:
  "(getById i s = None \<longrightarrow> update t i u s = (None, s)) \<and>
   (\<forall>old. getById i s = Some old \<longrightarrow>
      (\<exists>k new. k < length (notes_arr s) \<and> notes_arr s ! k = old \<and>
         (\<forall>j < k. note_id (notes_arr s ! j) \<noteq> i) \<and>
         fst (update t i u s) = Some new \<and>
         notes_arr (snd (update t i u s)) = (notes_arr s)[k := new] \<and>
         length (notes_arr (snd (update t i u s))) = length (notes_arr s) \<and>
         notes_arr (snd (update t i u s)) ! k = new \<and>
         (\<forall>j. j \<noteq> k \<longrightarrow> notes_arr (snd (update t i u s)) ! j = notes_arr s ! j) \<and>
         currentId (snd (update t i u s)) = currentId s \<and>
         note_id new = note_id old \<and>
         createdAt new = createdAt old \<and>
         updatedAt new = t \<and>
         title new = (case u_title u of None \<Rightarrow> title old | Some v \<Rightarrow> v) \<and>
         content new = (case u_content u of None \<Rightarrow> content old | Some v \<Rightarrow> v) \<and>
         tags new = (case u_tags u of None \<Rightarrow> tags old | Some v \<Rightarrow> v) \<and>
         dueDate new = (case u_dueDate u of None \<Rightarrow> dueDate old | Some v \<Rightarrow> Some v) \<and>
         isArchived new = (case u_isArchived u of None \<Rightarrow> isArchived old | Some v \<Rightarrow> v) \<and>
         isDone new = (case u_isDone u of None \<Rightarrow> isDone old | Some v \<Rightarrow> v)))"
proof (intro conjI impI allI)
  assume "getById i s = None"
  then show "update t i u s = (None, s)" by (rule getById_None_update)
next
  fix old
  assume a: "getById i s = Some old"
  let ?k = "nat (findIndex (\<lambda>n. note_id n = i) (notes_arr s))"
  let ?new = "merge_note old u t"
  from a have f: "find (\<lambda>n. note_id n = i) (notes_arr s) = Some old" by (simp add: getById_def)
  note fi = findIndex_some [OF f]
  note up = getById_Some_update [OF a, of t u]
  have 1: "?k < length (notes_arr s)" using fi by simp
  have 2: "notes_arr s ! ?k = old" using fi by simp
  have 3: "\<forall>j < ?k. note_id (notes_arr s ! j) \<noteq> i" using fi by simp
  have 4: "fst (update t i u s) = Some ?new" by (simp add: up)
  have 5: "notes_arr (snd (update t i u s)) = (notes_arr s)[?k := ?new]" by (simp add: up)
  have 6: "length (notes_arr (snd (update t i u s))) = length (notes_arr s)" by (simp add: 5)
  have 7: "notes_arr (snd (update t i u s)) ! ?k = ?new" using 1 by (simp add: 5)
  have 8: "\<forall>j. j \<noteq> ?k \<longrightarrow> notes_arr (snd (update t i u s)) ! j = notes_arr s ! j"
    by (simp add: 5)
  have 9: "currentId (snd (update t i u s)) = currentId s" by (simp add: up)
  have 10: "note_id ?new = note_id old \<and> createdAt ?new = createdAt old \<and> updatedAt ?new = t"
    by (simp add: merge_note_def)
  have 11: "title ?new = (case u_title u of None \<Rightarrow> title old | Some v \<Rightarrow> v) \<and>
         content ?new = (case u_content u of None \<Rightarrow> content old | Some v \<Rightarrow> v) \<and>
         tags ?new = (case u_tags u of None \<Rightarrow> tags old | Some v \<Rightarrow> v)"
    by (simp add: merge_note_def)
  have 12: "dueDate ?new = (case u_dueDate u of None \<Rightarrow> dueDate old | Some v \<Rightarrow> Some v) \<and>
         isArchived ?new = (case u_isArchived u of None \<Rightarrow> isArchived old | Some v \<Rightarrow> v) \<and>
         isDone ?new = (case u_isDone u of None \<Rightarrow> isDone old | Some v \<Rightarrow> v)"
    by (simp add: merge_note_def)
  show "\<exists>k new. k < length (notes_arr s) \<and> notes_arr s ! k = old \<and>
         (\<forall>j < k. note_id (notes_arr s ! j) \<noteq> i) \<and>
         fst (update t i u s) = Some new \<and>
         notes_arr (snd (update t i u s)) = (notes_arr s)[k := new] \<and>
         length (notes_arr (snd (update t i u s))) = length (notes_arr s) \<and>
         notes_arr (snd (update t i u s)) ! k = new \<and>
         (\<forall>j. j \<noteq> k \<longrightarrow> notes_arr (snd (update t i u s)) ! j = notes_arr s ! j) \<and>
         currentId (snd (update t i u s)) = currentId s \<and>
         note_id new = note_id old \<and>
         createdAt new = createdAt old \<and>
         updatedAt new = t \<and>
         title new = (case u_title u of None \<Rightarrow> title old | Some v \<Rightarrow> v) \<and>
         content new = (case u_content u of None \<Rightarrow> content old | Some v \<Rightarrow> v) \<and>
         tags new = (case u_tags u of None \<Rightarrow> tags old | Some v \<Rightarrow> v) \<and>
         dueDate new = (case u_dueDate u of None \<Rightarrow> dueDate old | Some v \<Rightarrow> Some v) \<and>
         isArchived new = (case u_isArchived u of None \<Rightarrow> isArchived old | Some v \<Rightarrow> v) \<and>
         isDone new = (case u_isDone u of None \<Rightarrow> isDone old | Some v \<Rightarrow> v)"
    apply (rule exI [of _ ?k])
    apply (rule exI [of _ ?new])
    using 1 2 3 4 5 6 7 8 9 10 11 12 by blast
qed

theorem update_frame_witness:
  "getById 2 store_two = Some note_report \<and>
   update ''2025-02-01T00:00:00.000Z'' 2 update_title_x store_two
     = (Some (note_report\<lparr>title := ''x'', updatedAt := ''2025-02-01T00:00:00.000Z''\<rparr>),
        \<lparr>notes_arr = [note_milk, note_report\<lparr>title := ''x'', updatedAt := ''2025-02-01T00:00:00.000Z''\<rparr>],
         currentId = 3\<rparr>) \<and>
   getById 7 store_two = None \<and>
   update ''2025-02-01T00:00:00.000Z'' 7 update_title_x store_two = (None, store_two)"
proof -
  have a: "getById 2 store_two = Some note_report"
    by (simp add: store_eval)
  have b: "getById 7 store_two = None"
    by (simp add: store_eval)
  have c: "update ''2025-02-01T00:00:00.000Z'' 2 update_title_x store_two
     = (Some (note_report\<lparr>title := ''x'', updatedAt := ''2025-02-01T00:00:00.000Z''\<rparr>),
        \<lparr>notes_arr = [note_milk, note_report\<lparr>title := ''x'', updatedAt := ''2025-02-01T00:00:00.000Z''\<rparr>],
         currentId = 3\<rparr>)"
    by (simp add: store_eval update_title_x_def)
  show ?thesis
    using a b c update_frame [of 7 store_two "''2025-02-01T00:00:00.000Z''" update_title_x]
    by simp
qed

section \<open>The status operations\<close>

lemma toggle_eq:
  "(case getById i s of None \<Rightarrow> (None, s) | Some _ \<Rightarrow> update t i u s) = update t i u s"
  by (cases "getById i s") (simp_all add: getById_None_update)

lemma toggle_found:
  "getById i s = Some old \<Longrightarrow>
     fst (update t i (no_update\<lparr>u_isArchived := Some b\<rparr>) s) = Some (old\<lparr>isArchived := b, updatedAt := t\<rparr>) \<and>
     fst (update t i (no_update\<lparr>u_isDone := Some b\<rparr>) s) = Some (old\<lparr>isDone := b, updatedAt := t\<rparr>)"
  by (simp add: getById_Some_update merge_note_def no_update_def)

text \<open>
  Claim C7. For every store and every id, \<open>archive\<close>, \<open>unarchive\<close>, \<open>markAsDone\<close> and
  \<open>markAsUndone\<close> return the same result and the same final store as \<open>update\<close> with the single
  flag: not-found and the store unchanged for a missing id, and otherwise the stored note with
  only that flag and \<open>updatedAt\<close> set.
\<close>

theorem status_toggles_are_updates:
  "archive t i s = update t i (no_update\<lparr>u_isArchived := Some True\<rparr>) s \<and>
   unarchive t i s = update t i (no_update\<lparr>u_isArchived := Some False\<rparr>) s \<and>
   markAsDone t i s = update t i (no_update\<lparr>u_isDone := Some True\<rparr>) s \<and>
   markAsUndone t i s = update t i (no_update\<lparr>u_isDone := Some False\<rparr>) s \<and>
   (getById i s = None \<longrightarrow>
      archive t i s = (None, s) \<and> unarchive t i s = (None, s) \<and>
      markAsDone t i s = (None, s) \<and> markAsUndone t i s = (None, s)) \<and>
   (\<forall>old. getById i s = Some old \<longrightarrow>
      fst (archive t i s) = Some (old\<lparr>isArchived := True, updatedAt := t\<rparr>) \<and>
      fst (unarchive t i s) = Some (old\<lparr>isArchived := False, updatedAt := t\<rparr>) \<and>
      fst (markAsDone t i s) = Some (old\<lparr>isDone := True, updatedAt := t\<rparr>) \<and>
      fst (markAsUndone t i s) = Some (old\<lparr>isDone := False, updatedAt := t\<rparr>))"
proof -
  have e: "archive t i s = update t i (no_update\<lparr>u_isArchived := Some True\<rparr>) s"
      "unarchive t i s = update t i (no_update\<lparr>u_isArchived := Some False\<rparr>) s"
      "markAsDone t i s = update t i (no_update\<lparr>u_isDone := Some True\<rparr>) s"
      "markAsUndone t i s = update t i (no_update\<lparr>u_isDone := Some False\<rparr>) s"
    unfolding archive_def unarchive_def markAsDone_def markAsUndone_def
    by (rule toggle_eq)+
  have n: "archive t i s = (None, s) \<and> unarchive t i s = (None, s) \<and>
      markAsDone t i s = (None, s) \<and> markAsUndone t i s = (None, s)"
    if "getById i s = None"
    using that by (simp add: e getById_None_update)
  have f: "fst (archive t i s) = Some (old\<lparr>isArchived := True, updatedAt := t\<rparr>) \<and>
      fst (unarchive t i s) = Some (old\<lparr>isArchived := False, updatedAt := t\<rparr>) \<and>
      fst (markAsDone t i s) = Some (old\<lparr>isDone := True, updatedAt := t\<rparr>) \<and>
      fst (markAsUndone t i s) = Some (old\<lparr>isDone := False, updatedAt := t\<rparr>)"
    if "getById i s = Some old" for old
    using toggle_found [OF that] by (simp add: e)
  show ?thesis using e n f by blast
qed

theorem status_toggles_are_updates_witness:
  "getById 1 store_one = Some note_milk \<and>
   archive ''2025-02-01T00:00:00.000Z'' 1 store_one
     = (Some (note_milk\<lparr>isArchived := True, updatedAt := ''2025-02-01T00:00:00.000Z''\<rparr>),
        \<lparr>notes_arr = [note_milk\<lparr>isArchived := True, updatedAt := ''2025-02-01T00:00:00.000Z''\<rparr>],
         currentId = 2\<rparr>) \<and>
   getById 5 store_one = None \<and>
   markAsDone ''2025-02-01T00:00:00.000Z'' 5 store_one = (None, store_one)"
proof -
  have a: "getById 1 store_one = Some note_milk" by (simp add: store_eval)
  have b: "getById 5 store_one = None" by (simp add: store_eval)
  have c: "update ''2025-02-01T00:00:00.000Z'' 1 (no_update\<lparr>u_isArchived := Some True\<rparr>) store_one
     = (Some (note_milk\<lparr>isArchived := True, updatedAt := ''2025-02-01T00:00:00.000Z''\<rparr>),
        \<lparr>notes_arr = [note_milk\<lparr>isArchived := True, updatedAt := ''2025-02-01T00:00:00.000Z''\<rparr>],
         currentId = 2\<rparr>)"
    by (simp add: store_eval)
  have d: "archive ''2025-02-01T00:00:00.000Z'' 1 store_one
          = update ''2025-02-01T00:00:00.000Z'' 1 (no_update\<lparr>u_isArchived := Some True\<rparr>) store_one"
    using status_toggles_are_updates [of "''2025-02-01T00:00:00.000Z''" 1 store_one] by blast
  have e: "markAsDone ''2025-02-01T00:00:00.000Z'' 5 store_one = (None, store_one)"
    using b status_toggles_are_updates [of "''2025-02-01T00:00:00.000Z''" 5 store_one] by blast
  show ?thesis
    using a b c d e by simp
qed

section \<open>Creation and identifiers\<close>

lemma update_currentId: "currentId (snd (update t i u s)) = currentId s"
  by (simp add: update_def Let_def)

lemma delete_currentId: "currentId (snd (delete i s)) = currentId s"
  by (simp add: delete_def Let_def)

lemma toggle_currentId:
  "currentId (snd (archive t i s)) = currentId s"
  "currentId (snd (unarchive t i s)) = currentId s"
  "currentId (snd (markAsDone t i s)) = currentId s"
  "currentId (snd (markAsUndone t i s)) = currentId s"
  by (simp_all add: archive_def unarchive_def markAsDone_def markAsUndone_def update_currentId
      split: option.splits)

lemma create_id: "note_id (fst (create t1 t2 p s)) = currentId s"
  by (simp add: create_def generateId_def Let_def)

lemma create_currentId: "currentId (snd (create t1 t2 p s)) = currentId s + 1"
  by (simp add: create_def generateId_def Let_def)

lemma step_effect:
  "fst (step x s) = (if is_create x then Some (currentId s) else None) \<and>
   currentId (snd (step x s)) = (if is_create x then currentId s + 1 else currentId s)"
  by (cases x)
     (simp_all add: getAll_snd update_currentId delete_currentId toggle_currentId create_id
        create_currentId)

lemma run_effect:
  "fst (run ops s) = map (\<lambda>k. currentId s + int k) [0 ..< length (filter is_create ops)] \<and>
   currentId (snd (run ops s)) = currentId s + int (length (filter is_create ops))"
proof (induction ops arbitrary: s)
  case Nil
  then show ?case by simp
next
  case (Cons x xs)
  obtain r s1 where st: "step x s = (r, s1)" by (cases "step x s")
  obtain ids s2 where rn: "run xs s1 = (ids, s2)" by (cases "run xs s1")
  from step_effect [of x s] st
  have r: "r = (if is_create x then Some (currentId s) else None)"
    and c: "currentId s1 = (if is_create x then currentId s + 1 else currentId s)" by simp_all
  from Cons.IH [of s1] rn
  have ids: "ids = map (\<lambda>k. currentId s1 + int k) [0 ..< length (filter is_create xs)]"
    and c2: "currentId s2 = currentId s1 + int (length (filter is_create xs))" by simp_all
  show ?case
  proof (cases "is_create x")
    case True
    have "map (\<lambda>k. currentId s + int k) [0 ..< Suc (length (filter is_create xs))]
          = currentId s # map (\<lambda>k. currentId s + 1 + int k) [0 ..< length (filter is_create xs)]"
      by (simp add: upt_conv_Cons map_Suc_upt [symmetric] del: upt_Suc)
    with True r c ids c2 st rn show ?thesis by simp
  next
    case False
    with r c ids c2 st rn show ?thesis by simp
  qed
qed

lemma create_effect:
  "fst (create t1 t2 p s) =
     \<lparr>note_id = currentId s, title = p_title p, content = p_content p, tags = p_tags p,
      dueDate = p_dueDate p, isArchived = False, isDone = False, createdAt = t1,
      updatedAt = t2\<rparr> \<and>
   notes_arr (snd (create t1 t2 p s)) = notes_arr s @ [fst (create t1 t2 p s)] \<and>
   currentId (snd (create t1 t2 p s)) = currentId s + 1"
  by (simp add: create_def generateId_def Let_def)

lemma find_append_new:
  "\<forall>x \<in> set xs. \<not> p x \<Longrightarrow> p y \<Longrightarrow> find p (xs @ [y]) = Some y"
  by (induction xs) auto

lemma create_getById:
  assumes "ids_below_counter s"
  shows "getById (note_id (fst (create t1 t2 p s))) (snd (create t1 t2 p s))
           = Some (fst (create t1 t2 p s))"
proof -
  have "\<forall>n \<in> set (notes_arr s). \<not> note_id n = currentId s"
    using assms by (auto simp: ids_below_counter_def list_all_iff)
  then show ?thesis
    unfolding getById_def
    by (simp add: create_effect find_append_new)
qed

lemma ids_below_initial: "ids_below_counter initial_store"
  by (simp add: ids_below_counter_def initial_store_def)

lemma update_ids:
  "map note_id (notes_arr (snd (update t i u s))) = map note_id (notes_arr s)"
proof (cases "getById i s")
  case None
  then show ?thesis by (simp add: getById_None_update)
next
  case (Some old)
  from Some have f: "find (\<lambda>n. note_id n = i) (notes_arr s) = Some old" by (simp add: getById_def)
  note fi = findIndex_some [OF f]
  have "note_id (merge_note old u t) = note_id old" by (simp add: merge_note_def)
  with fi have "(map note_id (notes_arr s))[nat (findIndex (\<lambda>n. note_id n = i) (notes_arr s))
                 := note_id (merge_note old u t)] = map note_id (notes_arr s)"
    by (simp add: list_update_same_conv)
  then show ?thesis
    by (simp add: getById_Some_update [OF Some] map_update)
qed

lemma ids_below_alt:
  "ids_below_counter s \<longleftrightarrow> (\<forall>i \<in> set (map note_id (notes_arr s)). i < currentId s)"
  by (auto simp: ids_below_counter_def list_all_iff)

lemma update_ids_below: "ids_below_counter s \<Longrightarrow> ids_below_counter (snd (update t i u s))"
  unfolding ids_below_alt update_ids update_currentId .

lemma delete_subset: "set (notes_arr (snd (delete i s))) \<subseteq> set (notes_arr s)"
  by (auto simp: delete_def Let_def dest: in_set_takeD in_set_dropD)

lemma step_ids_below: "ids_below_counter s \<Longrightarrow> ids_below_counter (snd (step x s))"
proof (cases x)
  case (Create t1 t2 p)
  assume "ids_below_counter s"
  then show ?thesis
    using Create by (auto simp: ids_below_counter_def list_all_iff create_effect)
next
  case (Delete i)
  assume "ids_below_counter s"
  then show ?thesis
    using Delete delete_subset [of i s]
    by (auto simp: ids_below_counter_def list_all_iff delete_currentId)
qed (simp_all add: update_ids_below getAll_snd toggle_eq
       archive_def unarchive_def markAsDone_def markAsUndone_def)

lemma run_ids_below: "ids_below_counter s \<Longrightarrow> ids_below_counter (snd (run ops s))"
proof (induction ops arbitrary: s)
  case Nil
  then show ?case by simp
next
  case (Cons x xs)
  from Cons.prems have "ids_below_counter (snd (step x s))" by (rule step_ids_below)
  then have "ids_below_counter (snd (run xs (snd (step x s))))" by (rule Cons.IH)
  then show ?case by (simp add: split_beta Let_def)
qed

text \<open>
  Claim C6. Across every sequence of store operations, deletes included, and from every store,
  the ids assigned by the successive \<open>create\<close> calls are strictly increasing, so none is
  assigned twice; each lies at or above the counter the sequence started with and below the
  counter it ends with.
\<close>

theorem created_ids_strictly_increasing:
  "sorted_wrt (<) (fst (run ops s)) \<and> distinct (fst (run ops s)) \<and>
   (\<forall>i \<in> set (fst (run ops s)). currentId s \<le> i \<and> i < currentId (snd (run ops s)))"
proof -
  let ?m = "length (filter is_create ops)"
  have ids: "fst (run ops s) = map (\<lambda>k. currentId s + int k) [0 ..< ?m]"
    and c: "currentId (snd (run ops s)) = currentId s + int ?m"
    using run_effect [of ops s] by simp_all
  have 1: "sorted_wrt (<) (fst (run ops s))"
    unfolding ids by (simp add: sorted_wrt_map sorted_wrt_upt [unfolded sorted_wrt_iff_nth_less] sorted_wrt_iff_nth_less)
  have 2: "distinct (fst (run ops s))"
    unfolding ids by (simp add: distinct_map inj_on_def)
  have 3: "\<forall>i \<in> set (fst (run ops s)). currentId s \<le> i \<and> i < currentId (snd (run ops s))"
    unfolding ids c by auto
  show ?thesis using 1 2 3 by blast
qed

theorem created_ids_strictly_increasing_witness:
  "fst (run ops_example initial_store) = [1, 2] \<and>
   sorted_wrt (<) (fst (run ops_example initial_store)) \<and>
   notes_arr (snd (run ops_example initial_store)) =
     [\<lparr>note_id = 2, title = ''Buy Milk'', content = ''2%'', tags = [''errand''],
       dueDate = None, isArchived = False, isDone = False,
       createdAt = ''2025-01-01T10:31:00.000Z'', updatedAt = ''2025-01-01T10:31:00.000Z''\<rparr>]"
proof -
  have a: "run ops_example initial_store =
     ([1, 2], \<lparr>notes_arr = [\<lparr>note_id = 2, title = ''Buy Milk'', content = ''2%'', tags = [''errand''],
       dueDate = None, isArchived = False, isDone = False,
       createdAt = ''2025-01-01T10:31:00.000Z'', updatedAt = ''2025-01-01T10:31:00.000Z''\<rparr>],
       currentId = 3\<rparr>)"
    by (simp add: ops_example_def initial_store_def create_effect delete_def
        payload_milk_def getAll_snd Let_def prod_eq_iff)
  show ?thesis
    using a created_ids_strictly_increasing [of ops_example initial_store] by simp
qed

text \<open>
  Claim C4. \<open>create\<close> always succeeds, takes the counter's value as the id and increments the
  counter, clears both flags, appends the note, and \<open>getById\<close> then finds the returned note
  (\<open>create_effect\<close> and \<open>create_getById\<close> above). But \<open>createdAt\<close> and \<open>updatedAt\<close> come from two
  separate evaluations of \<^verbatim>\<open>new Date().toISOString()\<close>, and they differ when the clock advances
  from one millisecond to the next between the two: here the first reading is
  \<^verbatim>\<open>10:30:00.000\<close> and the second \<^verbatim>\<open>10:30:00.001\<close>.
\<close>

theorem create_timestamps_differ:
  "createdAt (fst (create ''2025-01-01T10:30:00.000Z'' ''2025-01-01T10:30:00.001Z''
                      payload_milk initial_store))
   \<noteq> updatedAt (fst (create ''2025-01-01T10:30:00.000Z'' ''2025-01-01T10:30:00.001Z''
                        payload_milk initial_store))"
  by (simp add: create_effect)

section \<open>Validation\<close>

lemma zissues_text_None: "zissues dt (ZString cs) p None = [(p, RequiredMissing)]"
  by (simp add: type_issue_def)

lemma zissues_text_set:
  "set (zissues dt (ZString [ZMin lo, ZMax hi]) p (Some v)) = {(p, r) | r. text_breaks lo hi v r}"
  by (cases v) (auto simp: text_breaks_def type_issue_def check_fails_def check_rule_def)

lemma zissues_text_paths:
  "lo \<le> hi \<Longrightarrow> map fst (zissues dt (ZString [ZMin lo, ZMax hi]) p v) = [] \<or>
                 map fst (zissues dt (ZString [ZMin lo, ZMax hi]) p v) = [p]"
  by (cases v; cases "the v")
     (auto simp: type_issue_def check_fails_def check_rule_def)

lemma zissues_datetime_set:
  "set (zissues dt (ZNullable (ZOptional (ZString [ZDatetime]))) p (Some v))
     = {(p, r) | r. dueDate_breaks dt v r}"
  by (cases v) (auto simp: dueDate_breaks_def type_issue_def check_fails_def check_rule_def)

lemma zissues_datetime_paths:
  "map fst (zissues dt (ZNullable (ZOptional (ZString [ZDatetime]))) p v) = [] \<or>
   map fst (zissues dt (ZNullable (ZOptional (ZString [ZDatetime]))) p v) = [p]"
  by (cases v; cases "the v")
     (auto simp: type_issue_def check_fails_def check_rule_def)

lemma zissues_flag_set:
  "set (zissues dt (ZOptional ZBoolean) p (Some v)) = {(p, r) | r. flag_breaks v r}"
  by (cases v) (auto simp: flag_breaks_def type_issue_def)

lemma zissues_flag_paths:
  "map fst (zissues dt (ZOptional ZBoolean) p v) = [] \<or>
   map fst (zissues dt (ZOptional ZBoolean) p v) = [p]"
  by (cases v; cases "the v") (auto simp: type_issue_def)

lemma element_issues_Cons:
  "element_issues dt p n (x # xs) =
     zissues dt (ZString [ZMin 1, ZMax 20]) (p @ [Idx n]) (Some x) @ element_issues dt p (Suc n) xs"
  by (simp add: element_issues_def del: zissues.simps)

lemma element_issues_set:
  "set (element_issues dt p n xs)
     = {(p @ [Idx (n + i)], r) | i r. i < length xs \<and> text_breaks 1 20 (xs ! i) r}"
proof (induction xs arbitrary: n)
  case Nil
  then show ?case by (simp add: element_issues_def)
next
  case (Cons x xs)
  have "{(p @ [Idx (n + i)], r) | i r. i < length (x # xs) \<and> text_breaks 1 20 ((x # xs) ! i) r}
        = {(p @ [Idx n], r) | r. text_breaks 1 20 x r} \<union>
          {(p @ [Idx (Suc n + i)], r) | i r. i < length xs \<and> text_breaks 1 20 (xs ! i) r}"
    (is "?L = ?A \<union> ?B")
  proof (intro set_eqI iffI)
    fix e assume "e \<in> ?L"
    then obtain i r where e: "e = (p @ [Idx (n + i)], r)" "i < length (x # xs)"
        "text_breaks 1 20 ((x # xs) ! i) r" by blast
    show "e \<in> ?A \<union> ?B"
    proof (cases i)
      case 0
      with e show ?thesis by simp
    next
      case (Suc j)
      with e have "e = (p @ [Idx (Suc n + j)], r) \<and> j < length xs \<and> text_breaks 1 20 (xs ! j) r"
        by simp
      then show ?thesis by blast
    qed
  next
    fix e assume "e \<in> ?A \<union> ?B"
    then show "e \<in> ?L"
    proof
      assume "e \<in> ?A"
      then obtain r where "e = (p @ [Idx (n + 0)], r)" "0 < length (x # xs)"
          "text_breaks 1 20 ((x # xs) ! 0) r" by auto
      then show ?thesis by blast
    next
      assume "e \<in> ?B"
      then obtain j r where "e = (p @ [Idx (n + Suc j)], r)" "Suc j < length (x # xs)"
          "text_breaks 1 20 ((x # xs) ! Suc j) r" by auto
      then show ?thesis by blast
    qed
  qed
  then show ?case
    by (simp only: element_issues_Cons set_append zissues_text_set Cons.IH)
qed

lemma distinct_at_most_one:
  "h = [] \<or> h = [a] \<Longrightarrow> distinct t \<Longrightarrow> a \<notin> set t \<Longrightarrow> distinct (h @ t)"
  by auto

lemma element_issues_paths:
  "distinct (map fst (element_issues dt p n xs)) \<and>
   (\<forall>q \<in> set (map fst (element_issues dt p n xs)). \<exists>i. n \<le> i \<and> q = p @ [Idx i])"
proof (induction xs arbitrary: n)
  case Nil
  then show ?case by (simp add: element_issues_def)
next
  case (Cons x xs)
  let ?h = "map fst (zissues dt (ZString [ZMin 1, ZMax 20]) (p @ [Idx n]) (Some x))"
  let ?t = "map fst (element_issues dt p (Suc n) xs)"
  have h: "?h = [] \<or> ?h = [p @ [Idx n]]" by (rule zissues_text_paths) simp
  have t1: "distinct ?t" using Cons.IH [of "Suc n"] by blast
  have t2: "\<forall>q \<in> set ?t. \<exists>i. Suc n \<le> i \<and> q = p @ [Idx i]" using Cons.IH [of "Suc n"] by blast
  have notin: "p @ [Idx n] \<notin> set ?t" using t2 by auto
  have d: "distinct (?h @ ?t)" using h t1 notin by (rule distinct_at_most_one)
  have r: "\<forall>q \<in> set (?h @ ?t). \<exists>i. n \<le> i \<and> q = p @ [Idx i]"
  proof
    fix q assume "q \<in> set (?h @ ?t)"
    then consider "q \<in> set ?h" | "q \<in> set ?t" by (auto simp del: zissues.simps)
    then show "\<exists>i. n \<le> i \<and> q = p @ [Idx i]"
    proof cases
      case 1
      with h have "q = p @ [Idx n]" by (auto simp del: zissues.simps)
      then show ?thesis by blast
    next
      case 2
      with t2 obtain i where "Suc n \<le> i \<and> q = p @ [Idx i]" by blast
      then have "n \<le> i \<and> q = p @ [Idx i]" by simp
      then show ?thesis by blast
    qed
  qed
  show ?case using d r by (simp only: element_issues_Cons map_append)
qed

lemma tags_issues_default:
  "zissues dt (ZDefault (ZOptional (ZArray (ZString [ZMin 1, ZMax 20]) (Some 10))) (JsArray []))
           [Key ''tags''] v = tags_issues dt v"
  by (cases v) (simp_all add: tags_issues_def)

lemma tags_issues_array:
  "tags_issues dt (Some (JsArray xs))
     = (if 10 < length xs then [([Key ''tags''], ExceedsCount)] else []) @
       element_issues dt [Key ''tags''] 0 xs"
  by (simp add: tags_issues_def element_issues_def)

lemma tags_issues_set:
  "set (tags_issues dt v) = (case v of None \<Rightarrow> {} | Some x \<Rightarrow> {e. tags_breaks x e})"
proof (cases v)
  case None
  then show ?thesis by (simp add: tags_issues_def)
next
  case (Some x)
  show ?thesis
  proof (cases x)
    case (JsArray xs)
    show ?thesis
      unfolding Some JsArray tags_issues_array
      by (auto simp: element_issues_set tags_breaks_def)
  qed (auto simp: Some tags_issues_def tags_breaks_def type_issue_def)
qed

lemma tags_issues_paths:
  "distinct (map fst (tags_issues dt v)) \<and>
   (\<forall>q \<in> set (map fst (tags_issues dt v)). \<exists>r. q = Key ''tags'' # r)"
proof (cases v)
  case None
  then show ?thesis by (simp add: tags_issues_def)
next
  case (Some x)
  show ?thesis
  proof (cases x)
    case (JsArray xs)
    note ep = element_issues_paths [of dt "[Key ''tags'']" 0 xs]
    have "[Key ''tags''] \<notin> set (map fst (element_issues dt [Key ''tags''] 0 xs))"
      using ep by auto
    moreover have "\<forall>q \<in> set (map fst (element_issues dt [Key ''tags''] 0 xs)). \<exists>r. q = Key ''tags'' # r"
      using ep by auto
    ultimately show ?thesis
      unfolding Some JsArray tags_issues_array using ep by auto
  qed (simp_all add: Some tags_issues_def type_issue_def)
qed

lemma zissues_opt_text_set:
  "set (zissues dt (ZOptional (ZString [ZMin lo, ZMax hi])) p v)
     = (case v of None \<Rightarrow> {} | Some x \<Rightarrow> {(p, r) | r. text_breaks lo hi x r})"
proof (cases v)
  case None
  then show ?thesis by simp
next
  case (Some x)
  have "zissues dt (ZOptional (ZString [ZMin lo, ZMax hi])) p (Some x)
          = zissues dt (ZString [ZMin lo, ZMax hi]) p (Some x)" by simp
  then show ?thesis unfolding Some by (simp only: zissues_text_set option.case)
qed

lemma zissues_opt_text_paths:
  "lo \<le> hi \<Longrightarrow> map fst (zissues dt (ZOptional (ZString [ZMin lo, ZMax hi])) p v) = [] \<or>
                 map fst (zissues dt (ZOptional (ZString [ZMin lo, ZMax hi])) p v) = [p]"
  using zissues_text_paths [of lo hi dt p v] by (cases v) (simp_all del: zissues.simps(1))

lemma zissues_req_text_set:
  "set (zissues dt (ZString [ZMin lo, ZMax hi]) p v)
     = (case v of None \<Rightarrow> {(p, RequiredMissing)} | Some x \<Rightarrow> {(p, r) | r. text_breaks lo hi x r})"
proof (cases v)
  case None
  then show ?thesis by (simp add: type_issue_def)
next
  case (Some x)
  show ?thesis unfolding Some by (simp only: zissues_text_set option.case)
qed

lemma zissues_due_set:
  "set (zissues dt (ZNullable (ZOptional (ZString [ZDatetime]))) p v)
     = (case v of None \<Rightarrow> {} | Some x \<Rightarrow> {(p, r) | r. dueDate_breaks dt x r})"
proof (cases v)
  case None
  then show ?thesis by simp
next
  case (Some x)
  show ?thesis unfolding Some by (simp only: zissues_datetime_set option.case)
qed

lemma zissues_opt_flag_set:
  "set (zissues dt (ZOptional ZBoolean) p v)
     = (case v of None \<Rightarrow> {} | Some x \<Rightarrow> {(p, r) | r. flag_breaks x r})"
proof (cases v)
  case None
  then show ?thesis by simp
next
  case (Some x)
  show ?thesis unfolding Some by (simp only: zissues_flag_set option.case)
qed

lemma create_issues:
  "object_issues dt noteCreateSchema (JsObject kvs) =
     zissues dt (ZString [ZMin 1, ZMax 100]) [Key ''title''] (map_of kvs ''title'') @
     zissues dt (ZString [ZMin 1, ZMax 1000]) [Key ''content''] (map_of kvs ''content'') @
     tags_issues dt (map_of kvs ''tags'') @
     zissues dt (ZNullable (ZOptional (ZString [ZDatetime]))) [Key ''dueDate''] (map_of kvs ''dueDate'')"
  by (simp only: object_issues_def noteCreateSchema_def json.case list.map concat.simps
      fst_conv snd_conv tags_issues_default append_Nil2)

lemma update_issues:
  "object_issues dt noteUpdateSchema (JsObject kvs) =
     zissues dt (ZOptional (ZString [ZMin 1, ZMax 100])) [Key ''title''] (map_of kvs ''title'') @
     zissues dt (ZOptional (ZString [ZMin 1, ZMax 1000])) [Key ''content''] (map_of kvs ''content'') @
     tags_issues dt (map_of kvs ''tags'') @
     zissues dt (ZNullable (ZOptional (ZString [ZDatetime]))) [Key ''dueDate''] (map_of kvs ''dueDate'') @
     zissues dt (ZOptional ZBoolean) [Key ''isArchived''] (map_of kvs ''isArchived'') @
     zissues dt (ZOptional ZBoolean) [Key ''isDone''] (map_of kvs ''isDone'')"
  by (simp only: object_issues_def noteUpdateSchema_def json.case list.map concat.simps
      fst_conv snd_conv tags_issues_def append_Nil2)

lemma create_issues_set:
  "set (object_issues dt noteCreateSchema (JsObject kvs)) = {e. create_violation dt kvs e}"
  unfolding create_issues set_append zissues_req_text_set tags_issues_set zissues_due_set
  by (auto simp: create_violation_def split: option.splits)

lemma update_issues_set:
  "set (object_issues dt noteUpdateSchema (JsObject kvs)) = {e. update_violation dt kvs e}"
  unfolding update_issues set_append zissues_opt_text_set tags_issues_set zissues_due_set
    zissues_opt_flag_set
  by (auto simp: update_violation_def split: option.splits)

lemma distinct_fields:
  assumes "a = [] \<or> a = [[Key ka]]" and "b = [] \<or> b = [[Key kb]]"
    and "distinct g" and "\<forall>q \<in> set g. \<exists>r. q = Key kg # r"
    and "d = [] \<or> d = [[Key kd]]"
    and "distinct [ka, kb, kg, kd]"
  shows "distinct (a @ b @ g @ d)"
  using assms by auto

lemma create_issues_distinct:
  "distinct (map fst (object_issues dt noteCreateSchema (JsObject kvs)))"
proof -
  let ?a = "map fst (zissues dt (ZString [ZMin 1, ZMax 100]) [Key ''title''] (map_of kvs ''title''))"
  let ?b = "map fst (zissues dt (ZString [ZMin 1, ZMax 1000]) [Key ''content''] (map_of kvs ''content''))"
  let ?g = "map fst (tags_issues dt (map_of kvs ''tags''))"
  let ?d = "map fst (zissues dt (ZNullable (ZOptional (ZString [ZDatetime]))) [Key ''dueDate''] (map_of kvs ''dueDate''))"
  have a: "?a = [] \<or> ?a = [[Key ''title'']]" by (rule zissues_text_paths) simp
  have b: "?b = [] \<or> ?b = [[Key ''content'']]" by (rule zissues_text_paths) simp
  have g1: "distinct ?g" using tags_issues_paths by blast
  have g2: "\<forall>q \<in> set ?g. \<exists>r. q = Key ''tags'' # r" using tags_issues_paths by blast
  have d: "?d = [] \<or> ?d = [[Key ''dueDate'']]" by (rule zissues_datetime_paths)
  have "distinct (?a @ ?b @ ?g @ ?d)"
    by (rule distinct_fields [OF a b g1 g2 d]) simp
  then show ?thesis
    unfolding create_issues map_append .
qed

lemma distinct_fields_more:
  assumes "distinct abgd" and "\<forall>q \<in> set abgd. \<exists>k r. q = Key k # r \<and> k \<noteq> ke \<and> k \<noteq> kf"
    and "e = [] \<or> e = [[Key ke]]" and "f = [] \<or> f = [[Key kf]]" and "ke \<noteq> kf"
  shows "distinct (abgd @ e @ f)"
  using assms by auto

lemma update_issues_distinct:
  "distinct (map fst (object_issues dt noteUpdateSchema (JsObject kvs)))"
proof -
  let ?a = "map fst (zissues dt (ZOptional (ZString [ZMin 1, ZMax 100])) [Key ''title''] (map_of kvs ''title''))"
  let ?b = "map fst (zissues dt (ZOptional (ZString [ZMin 1, ZMax 1000])) [Key ''content''] (map_of kvs ''content''))"
  let ?g = "map fst (tags_issues dt (map_of kvs ''tags''))"
  let ?d = "map fst (zissues dt (ZNullable (ZOptional (ZString [ZDatetime]))) [Key ''dueDate''] (map_of kvs ''dueDate''))"
  let ?e = "map fst (zissues dt (ZOptional ZBoolean) [Key ''isArchived''] (map_of kvs ''isArchived''))"
  let ?f = "map fst (zissues dt (ZOptional ZBoolean) [Key ''isDone''] (map_of kvs ''isDone''))"
  have a: "?a = [] \<or> ?a = [[Key ''title'']]" by (rule zissues_opt_text_paths) simp
  have b: "?b = [] \<or> ?b = [[Key ''content'']]" by (rule zissues_opt_text_paths) simp
  have g1: "distinct ?g" using tags_issues_paths by blast
  have g2: "\<forall>q \<in> set ?g. \<exists>r. q = Key ''tags'' # r" using tags_issues_paths by blast
  have d: "?d = [] \<or> ?d = [[Key ''dueDate'']]" by (rule zissues_datetime_paths)
  have e: "?e = [] \<or> ?e = [[Key ''isArchived'']]" by (rule zissues_flag_paths)
  have f: "?f = [] \<or> ?f = [[Key ''isDone'']]" by (rule zissues_flag_paths)
  have 1: "distinct (?a @ ?b @ ?g @ ?d)"
    by (rule distinct_fields [OF a b g1 g2 d]) simp
  have 2: "\<forall>q \<in> set (?a @ ?b @ ?g @ ?d). \<exists>k r. q = Key k # r \<and> k \<noteq> ''isArchived'' \<and> k \<noteq> ''isDone''"
  proof
    fix q assume "q \<in> set (?a @ ?b @ ?g @ ?d)"
    then consider "q \<in> set ?a" | "q \<in> set ?b" | "q \<in> set ?g" | "q \<in> set ?d"
      by (auto simp del: zissues.simps)
    then show "\<exists>k r. q = Key k # r \<and> k \<noteq> ''isArchived'' \<and> k \<noteq> ''isDone''"
    proof cases
      case 1
      with a have "q = Key ''title'' # []" by (auto simp del: zissues.simps)
      then show ?thesis by simp
    next
      case 2
      with b have "q = Key ''content'' # []" by (auto simp del: zissues.simps)
      then show ?thesis by simp
    next
      case 3
      with g2 obtain r where "q = Key ''tags'' # r" by blast
      then show ?thesis by simp
    next
      case 4
      with d have "q = Key ''dueDate'' # []" by (auto simp del: zissues.simps)
      then show ?thesis by simp
    qed
  qed
  have "distinct ((?a @ ?b @ ?g @ ?d) @ ?e @ ?f)"
    by (rule distinct_fields_more [OF 1 2 e f]) simp
  then show ?thesis
    unfolding update_issues map_append by (simp only: append_assoc)
qed

lemma validate_failure:
  "object_issues dt schema body \<noteq> [] \<Longrightarrow>
     validate dt schema next body s
       = (Response400 ''Validation error'' (object_issues dt schema body), s)"
  by (simp add: validate_def parse_def Let_def)

lemma validate_success:
  "object_issues dt schema body = [] \<Longrightarrow>
     validate dt schema next body s
       = (Next (fst (next (object_output schema body) s)), snd (next (object_output schema body) s))"
  by (simp add: validate_def parse_def Let_def split_beta)

text \<open>
  Claim C8. For every raw payload that violates the active schema, \<open>validate\<close> answers with a
  failure whose list holds exactly the violations present in the payload, all of them and not
  only the first, one entry per failing field, the entry naming the field's path (a key, or for
  an element of \<open>tags\<close> the key and the index) and the rule broken; the rest of the route is not
  run and the store is unchanged. A payload that is not an object is one violation at the empty
  path.
\<close>

theorem validate_reports_every_violation:
  "((\<exists>e. create_violation dt kvs e) \<longrightarrow>
      (\<exists>errors. validate dt noteCreateSchema next (JsObject kvs) s
                   = (Response400 ''Validation error'' errors, s) \<and>
                set errors = {e. create_violation dt kvs e} \<and>
                distinct (map fst errors))) \<and>
   ((\<exists>e. update_violation dt kvs e) \<longrightarrow>
      (\<exists>errors. validate dt noteUpdateSchema next (JsObject kvs) s
                   = (Response400 ''Validation error'' errors, s) \<and>
                set errors = {e. update_violation dt kvs e} \<and>
                distinct (map fst errors))) \<and>
   ((\<forall>kvs. body \<noteq> JsObject kvs) \<longrightarrow>
      validate dt schema next body s = (Response400 ''Validation error'' [([], WrongType)], s))"
proof (intro conjI impI)
  assume "\<exists>e. create_violation dt kvs e"
  then have "set (object_issues dt noteCreateSchema (JsObject kvs)) \<noteq> {}"
    unfolding create_issues_set by blast
  then have "object_issues dt noteCreateSchema (JsObject kvs) \<noteq> []" by auto
  then have "validate dt noteCreateSchema next (JsObject kvs) s
       = (Response400 ''Validation error'' (object_issues dt noteCreateSchema (JsObject kvs)), s)"
    by (rule validate_failure)
  then show "\<exists>errors. validate dt noteCreateSchema next (JsObject kvs) s
                   = (Response400 ''Validation error'' errors, s) \<and>
                set errors = {e. create_violation dt kvs e} \<and>
                distinct (map fst errors)"
    using create_issues_set create_issues_distinct by blast
next
  assume "\<exists>e. update_violation dt kvs e"
  then have "set (object_issues dt noteUpdateSchema (JsObject kvs)) \<noteq> {}"
    unfolding update_issues_set by blast
  then have "object_issues dt noteUpdateSchema (JsObject kvs) \<noteq> []" by auto
  then have "validate dt noteUpdateSchema next (JsObject kvs) s
       = (Response400 ''Validation error'' (object_issues dt noteUpdateSchema (JsObject kvs)), s)"
    by (rule validate_failure)
  then show "\<exists>errors. validate dt noteUpdateSchema next (JsObject kvs) s
                   = (Response400 ''Validation error'' errors, s) \<and>
                set errors = {e. update_violation dt kvs e} \<and>
                distinct (map fst errors)"
    using update_issues_set update_issues_distinct by blast
next
  assume a: "\<forall>kvs. body \<noteq> JsObject kvs"
  then have "object_issues dt schema body = [([], WrongType)]"
    by (cases body) (simp_all add: object_issues_def)
  then show "validate dt schema next body s = (Response400 ''Validation error'' [([], WrongType)], s)"
    by (simp add: validate_def parse_def Let_def)
qed

theorem validate_reports_every_violation_witness:
  "create_violation example_datetime body_two_missing ([Key ''title''], TooShort) \<and>
   validate example_datetime noteCreateSchema (\<lambda>d s. ((), s)) (JsObject body_two_missing) store_one
     = (Response400 ''Validation error''
          [([Key ''title''], TooShort), ([Key ''content''], RequiredMissing),
           ([Key ''tags'', Idx 1], TooShort), ([Key ''dueDate''], MalformedDatetime)], store_one) \<and>
   {e. create_violation example_datetime body_two_missing e}
     = set [([Key ''title''], TooShort), ([Key ''content''], RequiredMissing),
            ([Key ''tags'', Idx 1], TooShort), ([Key ''dueDate''], MalformedDatetime)]"
proof -
  have h: "create_violation example_datetime body_two_missing ([Key ''title''], TooShort)"
    by (simp add: create_violation_def body_two_missing_def text_breaks_def)
  have ev: "validate example_datetime noteCreateSchema (\<lambda>d s. ((), s)) (JsObject body_two_missing) store_one
     = (Response400 ''Validation error''
          [([Key ''title''], TooShort), ([Key ''content''], RequiredMissing),
           ([Key ''tags'', Idx 1], TooShort), ([Key ''dueDate''], MalformedDatetime)], store_one)"
    by (simp add: validate_def parse_def object_issues_def noteCreateSchema_def body_two_missing_def
        type_issue_def check_fails_def check_rule_def example_datetime_def Let_def enumerate_eq_zip)
  from h have "\<exists>e. create_violation example_datetime body_two_missing e" ..
  with validate_reports_every_violation
         [of example_datetime body_two_missing "\<lambda>d s. ((), s)" store_one]
  obtain errors where e:
    "validate example_datetime noteCreateSchema (\<lambda>d s. ((), s)) (JsObject body_two_missing) store_one
       = (Response400 ''Validation error'' errors, store_one)"
    "set errors = {e. create_violation example_datetime body_two_missing e}"
    by blast
  from e(1) ev have "errors = [([Key ''title''], TooShort), ([Key ''content''], RequiredMissing),
           ([Key ''tags'', Idx 1], TooShort), ([Key ''dueDate''], MalformedDatetime)]" by simp
  with e(2) h ev show ?thesis by simp
qed

end
